theory Spec2Isabelle
  imports Complex_Main "HOL-Library.Word" "HOL-Library.Sublist"
begin

section \<open>Errors raised by the pipeline\<close>

text \<open>
  Every exception that a step of \<^verbatim>\<open>dataset_anonymization.py\<close> can raise is a value of
  this type; a function that can raise returns \<open>error + 'a\<close> with \<open>Inl\<close> for the exception.
\<close>

datatype error =
    KeyError
  | ValueError
  | AttributeError
  | OverflowError
  | FileNotFoundError

section \<open>Data loader: compression detection\<close>

text \<open>
  \<^verbatim>\<open>load_lending_club_data\<close> chooses the \<^verbatim>\<open>compression\<close> argument of \<^verbatim>\<open>pd.read_csv\<close>:
  \<^verbatim>\<open>'gzip'\<close> or \<^verbatim>\<open>None\<close>. The file system is a partial map from paths to file contents;
  \<^verbatim>\<open>open\<close> on a missing path raises. \<^verbatim>\<open>pd.read_csv\<close> is the library's and is a parameter.
\<close>

datatype compression = Gzip | Uncompressed

type_synonym byte = "8 word"

definition endswith :: "string \<Rightarrow> string \<Rightarrow> bool" where
  "endswith s suf = suffix suf s"

definition read_bytes :: "nat \<Rightarrow> byte list \<Rightarrow> byte list" where
  "read_bytes n content = take n content"

definition gzip_magic :: "byte list" where
  "gzip_magic = [0x1F, 0x8B]"

definition detect_compression :: "(string \<rightharpoonup> byte list) \<Rightarrow> string \<Rightarrow> error + compression" where
  "detect_compression fs file_path =
     (if endswith file_path ''.gz'' then Inr Gzip
      else if endswith file_path ''.gzip'' then
        (case fs file_path of
           None \<Rightarrow> Inl FileNotFoundError
         | Some content \<Rightarrow>
             (let magic = read_bytes 2 content
              in Inr (if magic = gzip_magic then Gzip else Uncompressed)))
      else Inr Uncompressed)"

definition load_lending_club_data ::
  "(string \<Rightarrow> compression \<Rightarrow> error + 'df) \<Rightarrow> (string \<rightharpoonup> byte list) \<Rightarrow> string \<Rightarrow> error + 'df" where
  "load_lending_club_data read_csv fs file_path =
     (case detect_compression fs file_path of
        Inl e \<Rightarrow> Inl e
      | Inr compression \<Rightarrow> read_csv file_path compression)"

section \<open>Double-precision arithmetic\<close>

text \<open>
  The sampling sizes and the report percentages are computed in Python and NumPy
  floating point (IEEE 754 binary64, round to nearest, ties to even). A finite double is
  represented by its exact rational value. \<open>fl\<close> rounds a rational to the nearest number
  with a 53-bit significand; the exponent range is not bounded here, the one place where
  the source can leave it (an integer too large for a double) is \<open>float_of_int\<close>.
\<close>

type_synonym double = rat

function bit_length :: "int \<Rightarrow> nat" where
  "bit_length n = (if n \<le> 0 then 0 else Suc (bit_length (n div 2)))"
  by pat_completeness auto
termination
  by (relation "measure nat") auto

declare bit_length.simps [simp del]

definition pow2 :: "int \<Rightarrow> rat" where
  "pow2 e = (if 0 \<le> e then 2 ^ nat e else 1 / 2 ^ nat (- e))"

definition rint :: "rat \<Rightarrow> int" where
  \<comment> \<open>round to the nearest integer, ties to the even one\<close>
  "rint x =
     (let f = \<lfloor>x\<rfloor>; d = x - of_int f
      in if d < 1 / 2 then f
         else if 1 / 2 < d then f + 1
         else if even f then f else f + 1)"

definition binade :: "rat \<Rightarrow> int" where
  \<comment> \<open>for \<open>a > 0\<close>: the \<open>e\<close> with \<open>2 ^ e \<le> a < 2 ^ (e + 1)\<close>\<close>
  "binade a =
     (case quotient_of a of (p, q) \<Rightarrow>
        (let e0 = int (bit_length p) - int (bit_length q)
         in if a < pow2 e0 then e0 - 1 else e0))"

definition fl :: "rat \<Rightarrow> double" where
  "fl x =
     (if x = 0 then 0
      else (let a = \<bar>x\<bar>; u = pow2 (binade a - 52)
            in sgn x * of_int (rint (a / u)) * u))"

definition float_of_int :: "int \<Rightarrow> error + double" where
  \<comment> \<open>Python's conversion of an \<^verbatim>\<open>int\<close> operand of a float operation; it raises when
      the rounded value is \<open>2 ^ 1024\<close> or more, that is, has more than 1024 bits\<close>
  "float_of_int n =
     (let x = fl (of_int n)
      in if 1024 < bit_length \<lfloor>\<bar>x\<bar>\<rfloor> then Inl OverflowError else Inr x)"

definition fmul :: "double \<Rightarrow> double \<Rightarrow> double" where
  "fmul a b = fl (a * b)"

definition fdiv :: "double \<Rightarrow> double \<Rightarrow> double" where
  "fdiv a b = fl (a / b)"

definition fsub :: "double \<Rightarrow> double \<Rightarrow> double" where
  "fsub a b = fl (a - b)"

definition py_int :: "double \<Rightarrow> int" where
  \<comment> \<open>\<^verbatim>\<open>int(x)\<close> on a float: truncation towards zero\<close>
  "py_int x = (if 0 \<le> x then \<lfloor>x\<rfloor> else - \<lfloor>- x\<rfloor>)"

definition count_over_len :: "nat \<Rightarrow> nat \<Rightarrow> double" where
  \<comment> \<open>an entry of \<^verbatim>\<open>counts / total\<close>: both integers become doubles, then one division;
      a series with an entry has a positive total, so \<open>n\<close> is never 0 here\<close>
  "count_over_len c n = fdiv (fl (of_nat c)) (fl (of_nat n))"

definition np_round1 :: "double \<Rightarrow> double" where
  \<comment> \<open>\<^verbatim>\<open>.round(1)\<close>: NumPy computes \<^verbatim>\<open>rint(x * 10) / 10\<close>\<close>
  "np_round1 x = fdiv (of_int (rint (fmul x 10))) 10"

section \<open>Tables\<close>

text \<open>
  A \<^verbatim>\<open>DataFrame\<close> is its list of column labels, in order, and its list of records; a
  record maps a column label to the cell it holds. A cell is one of the values that a
  column of the loan table holds. Row labels (the index) play no part in the operations
  below: every assignment is to a column computed from the same table.
\<close>

datatype timestamp = Timestamp (ts_year: int) (ts_month: nat) (ts_day: nat) (ts_nanos: nat)

definition ts_le :: "timestamp \<Rightarrow> timestamp \<Rightarrow> bool" where
  "ts_le a b \<longleftrightarrow>
     ts_year a < ts_year b \<or>
     (ts_year a = ts_year b \<and>
       (ts_month a < ts_month b \<or>
        (ts_month a = ts_month b \<and>
          (ts_day a < ts_day b \<or>
           (ts_day a = ts_day b \<and> ts_nanos a \<le> ts_nanos b)))))"

datatype cell =
    CStr string
  | CInt int
  | CFloat double
  | CBool bool
  | CTime timestamp
  | CNaT
  | CNaN

type_synonym row = "string \<rightharpoonup> cell"

record dataframe =
  columns :: "string list"
  rows :: "row list"

definition cell_at :: "row \<Rightarrow> string \<Rightarrow> cell" where
  \<comment> \<open>a record that holds nothing under a label of the table reads as missing\<close>
  "cell_at r c = (case r c of Some v \<Rightarrow> v | None \<Rightarrow> CNaN)"

definition getitem :: "dataframe \<Rightarrow> string \<Rightarrow> error + cell list" where
  \<comment> \<open>\<^verbatim>\<open>df[c]\<close>\<close>
  "getitem df c =
     (if c \<in> set (columns df) then Inr (map (\<lambda>r. cell_at r c) (rows df))
      else Inl KeyError)"

definition setitem :: "dataframe \<Rightarrow> string \<Rightarrow> cell list \<Rightarrow> error + dataframe" where
  \<comment> \<open>\<^verbatim>\<open>df[c] = values\<close>: replaces the column, or appends it as the last one\<close>
  "setitem df c vs =
     (if length vs \<noteq> length (rows df) then Inl ValueError
      else Inr \<lparr>columns = (if c \<in> set (columns df) then columns df else columns df @ [c]),
                rows = map (\<lambda>(r, v). r(c \<mapsto> v)) (zip (rows df) vs)\<rparr>)"

definition select_rows :: "dataframe \<Rightarrow> bool list \<Rightarrow> dataframe" where
  \<comment> \<open>\<^verbatim>\<open>df[mask]\<close> with a boolean mask (a new table)\<close>
  "select_rows df keep =
     \<lparr>columns = columns df, rows = map snd (filter fst (zip keep (rows df)))\<rparr>"

definition drop_columns :: "dataframe \<Rightarrow> string list \<Rightarrow> error + dataframe" where
  \<comment> \<open>\<^verbatim>\<open>df.drop(columns=cols)\<close>: a label that is not a column raises\<close>
  "drop_columns df cols =
     (if set cols \<subseteq> set (columns df)
      then Inr \<lparr>columns = filter (\<lambda>c. c \<notin> set cols) (columns df),
                 rows = map (\<lambda>r. r |` (- set cols)) (rows df)\<rparr>
      else Inl KeyError)"

definition isin :: "cell list \<Rightarrow> string list \<Rightarrow> bool list" where
  "isin col vals = map (\<lambda>v. case v of CStr s \<Rightarrow> s \<in> set vals | _ \<Rightarrow> False) col"

definition astype_int :: "bool list \<Rightarrow> cell list" where
  "astype_int bs = map (\<lambda>b. CInt (if b then 1 else 0)) bs"

definition mask_and :: "bool list \<Rightarrow> bool list \<Rightarrow> bool list" where
  "mask_and xs ys = map (\<lambda>(x, y). x \<and> y) (zip xs ys)"

definition ge_date :: "cell list \<Rightarrow> timestamp \<Rightarrow> bool list" where
  \<comment> \<open>\<^verbatim>\<open>series >= date\<close> on a datetime column; \<^verbatim>\<open>NaT\<close> compares false\<close>
  "ge_date col d = map (\<lambda>v. case v of CTime t \<Rightarrow> ts_le d t | _ \<Rightarrow> False) col"

definition le_date :: "cell list \<Rightarrow> timestamp \<Rightarrow> bool list" where
  "le_date col d = map (\<lambda>v. case v of CTime t \<Rightarrow> ts_le t d | _ \<Rightarrow> False) col"

definition unique :: "'a list \<Rightarrow> 'a list" where
  \<comment> \<open>the distinct values, in order of first appearance\<close>
  "unique xs = rev (remdups (rev xs))"

definition is_missing :: "cell \<Rightarrow> bool" where
  "is_missing v \<longleftrightarrow> v = CNaN \<or> v = CNaT"

definition value_counts :: "cell list \<Rightarrow> (cell \<times> nat) list" where
  \<comment> \<open>\<^verbatim>\<open>series.value_counts()\<close>: missing cells are not counted; most frequent first,
      equal counts in order of first appearance\<close>
  "value_counts col =
     (let present = filter (\<lambda>v. \<not> is_missing v) col
      in sort_key (\<lambda>(k, c). - int c)
           (map (\<lambda>k. (k, count_list present k)) (unique present)))"

fun div_series :: "('k \<times> nat) list \<Rightarrow> nat \<Rightarrow> ('k \<times> double) list" where
  \<comment> \<open>\<^verbatim>\<open>counts / total\<close>, entry by entry\<close>
  "div_series [] n = []"
| "div_series ((k, c) # s) n = (k, count_over_len c n) # div_series s n"

definition value_counts_normalized :: "cell list \<Rightarrow> (cell \<times> double) list" where
  \<comment> \<open>\<^verbatim>\<open>series.value_counts(normalize=True)\<close>\<close>
  "value_counts_normalized col =
     (let vc = value_counts col
      in div_series vc (sum_list (map snd vc)))"

definition series_get :: "('k \<times> 'v) list \<Rightarrow> 'k \<Rightarrow> error + 'v" where
  \<comment> \<open>\<^verbatim>\<open>series[label]\<close>\<close>
  "series_get s k = (case map_of s k of Some v \<Rightarrow> Inr v | None \<Rightarrow> Inl KeyError)"

section \<open>Anonymization and filtering\<close>

text \<open>
  \<^verbatim>\<open>pd.to_datetime\<close> is the library's parser and is a parameter: it takes the cells of
  a column and raises, or returns one timestamp or \<^verbatim>\<open>NaT\<close> (\<open>None\<close>) per cell.
\<close>

type_synonym to_datetime = "cell list \<Rightarrow> error + timestamp option list"

definition datetime_cell :: "timestamp option \<Rightarrow> cell" where
  "datetime_cell t = (case t of Some ts \<Rightarrow> CTime ts | None \<Rightarrow> CNaT)"

definition period_start :: timestamp where
  "period_start = Timestamp 2015 1 1 0"

definition period_end :: timestamp where
  "period_end = Timestamp 2020 12 31 0"

definition paid_status :: "string list" where
  "paid_status = [''Fully Paid'', ''Does not meet the credit policy. Status:Fully Paid'']"

definition default_status :: "string list" where
  "default_status =
     [''Charged Off'', ''Default'', ''Late (31-120 days)'', ''In Grace Period'',
      ''Does not meet the credit policy. Status:Charged Off'', ''Late (16-30 days)'']"

definition future_leak_cols :: "string list" where
  "future_leak_cols =
     [''last_pymnt_d'', ''total_pymnt'', ''recoveries'', ''collection_recovery_fee'',
      ''last_credit_pull_d'', ''out_prncp'', ''out_prncp_inv'', ''total_pymnt_inv'',
      ''total_rec_prncp'', ''total_rec_int'', ''total_rec_late_fee'', ''hardship_flag'',
      ''settlement_status'', ''settlement_date'', ''settlement_amount'',
      ''debt_settlement_flag'']"

definition privacy_cols :: "string list" where
  "privacy_cols = [''member_id'', ''emp_title'', ''url'', ''desc'', ''title'']"

definition parse_issue_d :: "to_datetime \<Rightarrow> dataframe \<Rightarrow> error + dataframe" where
  \<comment> \<open>line 102: \<^verbatim>\<open>df['issue_d'] = pd.to_datetime(df['issue_d'])\<close>, on the caller's table\<close>
  "parse_issue_d to_dt df =
     (case getitem df ''issue_d'' of
        Inl e \<Rightarrow> Inl e
      | Inr raw \<Rightarrow>
          (case to_dt raw of
             Inl e \<Rightarrow> Inl e
           | Inr parsed \<Rightarrow> setitem df ''issue_d'' (map datetime_cell parsed)))"

definition filter_period :: "dataframe \<Rightarrow> error + dataframe" where
  \<comment> \<open>line 103\<close>
  "filter_period df =
     (case getitem df ''issue_d'' of
        Inl e \<Rightarrow> Inl e
      | Inr col \<Rightarrow>
          Inr (select_rows df (mask_and (ge_date col period_start) (le_date col period_end))))"

definition filter_status :: "dataframe \<Rightarrow> error + dataframe" where
  \<comment> \<open>line 111\<close>
  "filter_status df =
     (case getitem df ''loan_status'' of
        Inl e \<Rightarrow> Inl e
      | Inr col \<Rightarrow> Inr (select_rows df (isin col (paid_status @ default_status))))"

definition add_target :: "dataframe \<Rightarrow> error + dataframe" where
  \<comment> \<open>line 112\<close>
  "add_target df =
     (case getitem df ''loan_status'' of
        Inl e \<Rightarrow> Inl e
      | Inr col \<Rightarrow> setitem df ''target_default'' (astype_int (isin col default_status)))"

definition report_target_dist :: "dataframe \<Rightarrow> error + double \<times> double" where
  \<comment> \<open>lines 114-115: the two shares that the progress line formats\<close>
  "report_target_dist df =
     (case getitem df ''target_default'' of
        Inl e \<Rightarrow> Inl e
      | Inr col \<Rightarrow>
          (let target_dist = value_counts_normalized col
           in case series_get target_dist (CInt 0) of
                Inl e \<Rightarrow> Inl e
              | Inr paid \<Rightarrow>
                  (case series_get target_dist (CInt 1) of
                     Inl e \<Rightarrow> Inl e
                   | Inr dflt \<Rightarrow> Inr (paid, dflt))))"

definition drop_existing :: "dataframe \<Rightarrow> string list \<Rightarrow> error + dataframe" where
  \<comment> \<open>lines 123-124 and 129-130: drop those of \<open>cols\<close> that are columns of the table\<close>
  "drop_existing df cols =
     (let existing = filter (\<lambda>col. col \<in> set (columns df)) cols
      in drop_columns df existing)"

definition filtered_stage :: "dataframe \<Rightarrow> error + dataframe" where
  \<comment> \<open>lines 103-111: the table that survives the date and the status filter\<close>
  "filtered_stage df1 =
     (case filter_period df1 of
        Inl e \<Rightarrow> Inl e
      | Inr df_period \<Rightarrow> filter_status df_period)"

definition finish_anonymize :: "dataframe \<Rightarrow> error + dataframe" where
  \<comment> \<open>lines 103-134, on the table whose \<^verbatim>\<open>issue_d\<close> is parsed\<close>
  "finish_anonymize df1 =
     (case filtered_stage df1 of
        Inl e \<Rightarrow> Inl e
      | Inr df_status \<Rightarrow>
          (case add_target df_status of
             Inl e \<Rightarrow> Inl e
           | Inr df_target \<Rightarrow>
               (case report_target_dist df_target of
                  Inl e \<Rightarrow> Inl e
                | Inr _ \<Rightarrow>
                    (case drop_existing df_target future_leak_cols of
                       Inl e \<Rightarrow> Inl e
                     | Inr df_noleak \<Rightarrow> drop_existing df_noleak privacy_cols))))"

definition anonymize_and_filter_data ::
  "to_datetime \<Rightarrow> dataframe \<Rightarrow> dataframe \<times> (error + dataframe)" where
  \<comment> \<open>the caller's table after the call, and the exception raised or the table returned\<close>
  "anonymize_and_filter_data to_dt df =
     (case parse_issue_d to_dt df of
        Inl e \<Rightarrow> (df, Inl e)
      | Inr df1 \<Rightarrow> (df1, finish_anonymize df1))"

section \<open>Stratified sampling\<close>

text \<open>
  Two library functions are parameters. \<open>astype_str\<close> is \<^verbatim>\<open>.astype(str)\<close> on one cell:
  the string of the cell, or \<open>None\<close> where the library keeps a missing cell missing (some
  versions of it do, others make the string \<^verbatim>\<open>'nan'\<close> of it).
  \<open>permutation seed n\<close> is the order in which a generator freshly seeded with \<open>seed\<close>
  shuffles \<open>0, \<dots>, n - 1\<close>: \<^verbatim>\<open>DataFrame.sample(n=k, random_state=seed)\<close> takes the
  records at the first \<open>k\<close> positions of it. No property of either is built in; the
  theorems that need the shuffle to be a permutation say so.
\<close>

type_synonym astype_str = "cell \<Rightarrow> string option"

type_synonym permutation = "int \<Rightarrow> nat \<Rightarrow> nat list"

definition is_datetime_cell :: "cell \<Rightarrow> bool" where
  "is_datetime_cell v = (case v of CTime _ \<Rightarrow> True | CNaT \<Rightarrow> True | _ \<Rightarrow> False)"

definition dt_year :: "cell list \<Rightarrow> error + cell list" where
  \<comment> \<open>\<^verbatim>\<open>series.dt.year\<close>: only on a datetime column; integers, or floats with \<^verbatim>\<open>NaN\<close>
      when the column holds a \<^verbatim>\<open>NaT\<close>\<close>
  "dt_year col =
     (if list_all is_datetime_cell col
      then Inr (if CNaT \<in> set col
                then map (\<lambda>v. case v of CTime t \<Rightarrow> CFloat (of_int (ts_year t)) | _ \<Rightarrow> CNaN) col
                else map (\<lambda>v. case v of CTime t \<Rightarrow> CInt (ts_year t) | _ \<Rightarrow> CNaN) col)
      else Inl AttributeError)"

definition add_ano :: "dataframe \<Rightarrow> error + dataframe" where
  \<comment> \<open>line 153 (and lines 239, 240): \<^verbatim>\<open>df['ano'] = df['issue_d'].dt.year\<close>\<close>
  "add_ano df =
     (case getitem df ''issue_d'' of
        Inl e \<Rightarrow> Inl e
      | Inr col \<Rightarrow>
          (case dt_year col of
             Inl e \<Rightarrow> Inl e
           | Inr years \<Rightarrow> setitem df ''ano'' years))"

definition strata_label :: "astype_str \<Rightarrow> cell \<Rightarrow> cell \<Rightarrow> cell" where
  \<comment> \<open>one cell of \<^verbatim>\<open>a.astype(str) + '_' + t.astype(str)\<close>; a missing operand gives a
      missing label\<close>
  "strata_label str ano target =
     (case (str ano, str target) of
        (Some a, Some t) \<Rightarrow> CStr (a @ ''_'' @ t)
      | _ \<Rightarrow> CNaN)"

definition add_strata :: "astype_str \<Rightarrow> dataframe \<Rightarrow> error + dataframe" where
  \<comment> \<open>line 154\<close>
  "add_strata str df =
     (case getitem df ''ano'' of
        Inl e \<Rightarrow> Inl e
      | Inr ano \<Rightarrow>
          (case getitem df ''target_default'' of
             Inl e \<Rightarrow> Inl e
           | Inr target \<Rightarrow>
               setitem df ''strata'' (map (\<lambda>(a, t). strata_label str a t) (zip ano target))))"

definition stratum_sample_size :: "int \<Rightarrow> double \<Rightarrow> nat \<Rightarrow> error + int" where
  \<comment> \<open>lines 165-168, for one stratum with share \<open>prop\<close> and \<open>cnt\<close> records\<close>
  "stratum_sample_size target_sz prop cnt =
     (case float_of_int target_sz of
        Inl e \<Rightarrow> Inl e
      | Inr t \<Rightarrow>
          (let sample_size = py_int (fmul t prop);
               sample_size = (if sample_size = 0 \<and> 0 < cnt then 1 else sample_size)
           in Inr (min sample_size (int cnt))))"

fun compute_sample_sizes ::
  "int \<Rightarrow> (cell \<times> nat) list \<Rightarrow> (cell \<times> double) list \<Rightarrow> error + (cell \<times> int) list" where
  \<comment> \<open>lines 163-168; the keys of \<^verbatim>\<open>strata_props\<close> are distinct, so the dictionary is the
      list of its entries in insertion order\<close>
  "compute_sample_sizes target_sz strata_counts [] = Inr []"
| "compute_sample_sizes target_sz strata_counts ((strata, prop) # rest) =
     (case series_get strata_counts strata of
        Inl e \<Rightarrow> Inl e
      | Inr cnt \<Rightarrow>
          (case stratum_sample_size target_sz prop cnt of
             Inl e \<Rightarrow> Inl e
           | Inr n \<Rightarrow>
               (case compute_sample_sizes target_sz strata_counts rest of
                  Inl e \<Rightarrow> Inl e
                | Inr sizes \<Rightarrow> Inr ((strata, n) # sizes))))"

definition sample_frame :: "permutation \<Rightarrow> int \<Rightarrow> nat \<Rightarrow> dataframe \<Rightarrow> error + dataframe" where
  \<comment> \<open>\<^verbatim>\<open>df.sample(n=n, random_state=seed)\<close>, without replacement\<close>
  "sample_frame perm seed n df =
     (if length (rows df) < n then Inl ValueError
      else Inr \<lparr>columns = columns df,
                rows = map (\<lambda>i. rows df ! i) (take n (perm seed (length (rows df))))\<rparr>)"

fun draw_strata ::
  "permutation \<Rightarrow> int \<Rightarrow> dataframe \<Rightarrow> (cell \<times> int) list \<Rightarrow> error + dataframe list" where
  \<comment> \<open>lines 171-179\<close>
  "draw_strata perm seed df [] = Inr []"
| "draw_strata perm seed df ((strata, sample_size) # rest) =
     (if 0 < sample_size then
        (case getitem df ''strata'' of
           Inl e \<Rightarrow> Inl e
         | Inr col \<Rightarrow>
             (let strata_data = select_rows df (map (\<lambda>v. v = strata) col)
              in case (if sample_size \<le> int (length (rows strata_data))
                       then sample_frame perm seed (nat sample_size) strata_data
                       else Inr strata_data) of
                   Inl e \<Rightarrow> Inl e
                 | Inr sampled \<Rightarrow>
                     (case draw_strata perm seed df rest of
                        Inl e \<Rightarrow> Inl e
                      | Inr others \<Rightarrow> Inr (sampled # others))))
      else draw_strata perm seed df rest)"

definition concat_frames :: "dataframe list \<Rightarrow> error + dataframe" where
  \<comment> \<open>\<^verbatim>\<open>pd.concat(dfs, ignore_index=True)\<close>: no frame raises; frames with the same
      columns are stacked; otherwise the columns are united and the gaps are \<^verbatim>\<open>NaN\<close>\<close>
  "concat_frames dfs =
     (if dfs = [] then Inl ValueError
      else (let cols = (if list_all (\<lambda>d. columns d = columns (hd dfs)) dfs
                        then columns (hd dfs)
                        else unique (concat (map columns dfs)))
            in Inr \<lparr>columns = cols,
                     rows = concat (map (\<lambda>d. map (\<lambda>r c. if c \<in> set cols \<and> c \<notin> set (columns d)
                                                          then Some CNaN else r c) (rows d)) dfs)\<rparr>))"

definition stratify :: "permutation \<Rightarrow> dataframe \<Rightarrow> int \<Rightarrow> int \<Rightarrow> error + dataframe" where
  \<comment> \<open>lines 157-185, on the table that has its \<^verbatim>\<open>ano\<close> and \<^verbatim>\<open>strata\<close> columns; lines
      188-193 only print shares of \<^verbatim>\<open>ano\<close>, a column of both tables at that point\<close>
  "stratify perm df target_sz random_state =
     (case getitem df ''strata'' of
        Inl e \<Rightarrow> Inl e
      | Inr col \<Rightarrow>
          (let strata_counts = value_counts col;
               strata_props = div_series strata_counts (length (rows df))
           in case compute_sample_sizes target_sz strata_counts strata_props of
                Inl e \<Rightarrow> Inl e
              | Inr sample_sizes \<Rightarrow>
                  (case draw_strata perm random_state df sample_sizes of
                     Inl e \<Rightarrow> Inl e
                   | Inr dfs_sample \<Rightarrow>
                       (case concat_frames dfs_sample of
                          Inl e \<Rightarrow> Inl e
                        | Inr df_sample \<Rightarrow> drop_columns df_sample [''strata'']))))"

definition create_stratified_sample ::
  "astype_str \<Rightarrow> permutation \<Rightarrow> dataframe \<Rightarrow> int \<Rightarrow> int \<Rightarrow> dataframe \<times> (error + dataframe)" where
  \<comment> \<open>the caller's table after the call, and the exception raised or the sample returned\<close>
  "create_stratified_sample str perm df target_sz random_state =
     (case add_ano df of
        Inl e \<Rightarrow> (df, Inl e)
      | Inr df1 \<Rightarrow>
          (case add_strata str df1 of
             Inl e \<Rightarrow> (df1, Inl e)
           | Inr df2 \<Rightarrow> (df2, stratify perm df2 target_sz random_state)))"

section \<open>Temporal distribution analysis\<close>

text \<open>
  The report is a table indexed by year with three float columns,
  \<^verbatim>\<open>'Original (%)'\<close>, \<^verbatim>\<open>'Amostra (%)'\<close> and \<^verbatim>\<open>'Diferenca (pp)'\<close>; a cell is a
  double or \<^verbatim>\<open>NaN\<close> (\<open>None\<close>). A series indexed by year is the list of its entries.
\<close>

record comparison_row =
  ano :: int
  original_pct :: "double option"
  amostra_pct :: "double option"
  diferenca_pp :: "double option"

definition year_number :: "cell \<Rightarrow> int" where
  \<comment> \<open>the year that a cell of \<^verbatim>\<open>ano\<close> holds, as an integer or as a float\<close>
  "year_number v = (case v of CInt y \<Rightarrow> y | CFloat x \<Rightarrow> \<lfloor>x\<rfloor> | _ \<Rightarrow> 0)"

definition year_dist :: "dataframe \<Rightarrow> error + (int \<times> double) list" where
  \<comment> \<open>lines 242, 243: \<^verbatim>\<open>df['ano'].value_counts(normalize=True).sort_index()\<close>\<close>
  "year_dist df =
     (case getitem df ''ano'' of
        Inl e \<Rightarrow> Inl e
      | Inr col \<Rightarrow>
          Inr (sort_key fst (map (\<lambda>(k, p). (year_number k, p)) (value_counts_normalized col))))"

definition union_index :: "int list \<Rightarrow> int list \<Rightarrow> int list" where
  \<comment> \<open>the index of an aligned result: the union of two indexes, ascending\<close>
  "union_index a b = sort (remdups (a @ b))"

fun times_100_round1 :: "(int \<times> double) list \<Rightarrow> (int \<times> double) list" where
  \<comment> \<open>\<^verbatim>\<open>(dist * 100).round(1)\<close>\<close>
  "times_100_round1 [] = []"
| "times_100_round1 ((y, p) # s) = (y, np_round1 (fmul p 100)) # times_100_round1 s"

fun nan_abs_diff_pp :: "double option \<Rightarrow> double option \<Rightarrow> double option" where
  \<comment> \<open>\<^verbatim>\<open>abs((a - b) * 100).round(1)\<close> on one aligned pair; \<open>None\<close> is \<^verbatim>\<open>NaN\<close>\<close>
  "nan_abs_diff_pp (Some p) (Some q) = Some (np_round1 \<bar>fmul (fsub p q) 100\<bar>)"
| "nan_abs_diff_pp _ _ = None"

definition abs_diff_pp ::
  "(int \<times> double) list \<Rightarrow> (int \<times> double) list \<Rightarrow> (int \<times> double option) list" where
  \<comment> \<open>line 248: the subtraction aligns the two series on the union of their years\<close>
  "abs_diff_pp a b =
     map (\<lambda>y. (y, nan_abs_diff_pp (map_of a y) (map_of b y)))
       (union_index (map fst a) (map fst b))"

definition comparison_frame ::
  "(int \<times> double) list \<Rightarrow> (int \<times> double) list \<Rightarrow> (int \<times> double option) list \<Rightarrow>
     comparison_row list" where
  \<comment> \<open>lines 245-249: \<^verbatim>\<open>pd.DataFrame\<close> of three series, aligned on the union of their indexes\<close>
  "comparison_frame original amostra diferenca =
     map (\<lambda>y. \<lparr>ano = y, original_pct = map_of original y, amostra_pct = map_of amostra y,
               diferenca_pp = (case map_of diferenca y of Some d \<Rightarrow> d | None \<Rightarrow> None)\<rparr>)
       (union_index (union_index (map fst original) (map fst amostra)) (map fst diferenca))"

definition compare_dists :: "dataframe \<Rightarrow> dataframe \<Rightarrow> error + comparison_row list" where
  \<comment> \<open>lines 242-251, on the two tables that have their \<^verbatim>\<open>ano\<close> column\<close>
  "compare_dists df_original df_sample =
     (case year_dist df_original of
        Inl e \<Rightarrow> Inl e
      | Inr original_dist \<Rightarrow>
          (case year_dist df_sample of
             Inl e \<Rightarrow> Inl e
           | Inr sample_dist \<Rightarrow>
               Inr (comparison_frame (times_100_round1 original_dist) (times_100_round1 sample_dist)
                      (abs_diff_pp original_dist sample_dist))))"

definition analyze_temporal_distribution ::
  "dataframe \<Rightarrow> dataframe \<Rightarrow> (dataframe \<times> dataframe) \<times> (error + comparison_row list)" where
  \<comment> \<open>the two caller's tables after the call, and the exception raised or the report\<close>
  "analyze_temporal_distribution df_original df_sample =
     (case add_ano df_original of
        Inl e \<Rightarrow> ((df_original, df_sample), Inl e)
      | Inr df_original1 \<Rightarrow>
          (case add_ano df_sample of
             Inl e \<Rightarrow> ((df_original1, df_sample), Inl e)
           | Inr df_sample1 \<Rightarrow> ((df_original1, df_sample1), compare_dists df_original1 df_sample1)))"

section \<open>Vocabulary of the properties\<close>

text \<open>
  What the two filters keep, and the label they derive, read off a single record.
\<close>

definition in_period :: "cell \<Rightarrow> bool" where
  "in_period v = (case v of CTime t \<Rightarrow> ts_le period_start t \<and> ts_le t period_end | _ \<Rightarrow> False)"

definition status_in :: "string list \<Rightarrow> cell \<Rightarrow> bool" where
  "status_in vals v = (case v of CStr s \<Rightarrow> s \<in> set vals | _ \<Rightarrow> False)"

definition target_of :: "row \<Rightarrow> cell" where
  "target_of r = CInt (if status_in default_status (cell_at r ''loan_status'') then 1 else 0)"

definition with_target :: "string list \<Rightarrow> string list" where
  "with_target cs = (if ''target_default'' \<in> set cs then cs else cs @ [''target_default''])"

definition survives :: "row \<Rightarrow> bool" where
  "survives r \<longleftrightarrow> in_period (cell_at r ''issue_d'') \<and>
     status_in (paid_status @ default_status) (cell_at r ''loan_status'')"

text \<open>
  The stratum of a record is the label that line 154 gives it; the records of a stratum
  are those with that label. A record whose label is missing is in no stratum:
  \<^verbatim>\<open>value_counts\<close> does not count it and no comparison selects it. A shuffle is a
  permutation of the positions.
\<close>

definition label_of :: "astype_str \<Rightarrow> row \<Rightarrow> cell" where
  "label_of str r = strata_label str (cell_at r ''ano'') (cell_at r ''target_default'')"


definition strata_data :: "dataframe \<Rightarrow> cell \<Rightarrow> row list" where
  "strata_data df s = filter (\<lambda>r. cell_at r ''strata'' = s) (rows df)"



text \<open>
  The issue year of a record, the records of a year, the records that have a year, and
  the share of a year among them as the source computes it.
\<close>

definition issue_year :: "row \<Rightarrow> int option" where
  "issue_year r = (case cell_at r ''issue_d'' of CTime t \<Rightarrow> Some (ts_year t) | _ \<Rightarrow> None)"

definition year_rows :: "dataframe \<Rightarrow> int \<Rightarrow> row list" where
  "year_rows df y = filter (\<lambda>r. issue_year r = Some y) (rows df)"

definition dated_rows :: "dataframe \<Rightarrow> row list" where
  "dated_rows df = filter (\<lambda>r. issue_year r \<noteq> None) (rows df)"

definition year_share :: "dataframe \<Rightarrow> int \<Rightarrow> double option" where
  "year_share df y =
     (if year_rows df y = [] then None
      else Some (count_over_len (length (year_rows df y)) (length (dated_rows df))))"

definition year_cell :: "bool \<Rightarrow> int option \<Rightarrow> cell" where
  "year_cell flt y = (case y of None \<Rightarrow> CNaN | Some n \<Rightarrow> if flt then CFloat (of_int n) else CInt n)"

definition ano_of_issue_d :: "dataframe \<Rightarrow> bool" where
  "ano_of_issue_d df \<longleftrightarrow> ''ano'' \<in> set (columns df) \<and>
     (\<exists>flt. \<forall>r \<in> set (rows df). cell_at r ''ano'' = year_cell flt (issue_year r))"

definition report_row :: "dataframe \<Rightarrow> dataframe \<Rightarrow> int \<Rightarrow> comparison_row" where
  "report_row df_original df_sample y =
     \<lparr>ano = y,
      original_pct = map_option (\<lambda>p. np_round1 (fmul p 100)) (year_share df_original y),
      amostra_pct = map_option (\<lambda>p. np_round1 (fmul p 100)) (year_share df_sample y),
      diferenca_pp = nan_abs_diff_pp (year_share df_original y) (year_share df_sample y)\<rparr>"

section \<open>Example tables\<close>

text \<open>
  The parser used on the examples agrees with \<^verbatim>\<open>pd.to_datetime\<close> on the month-year
  strings of the loan table that occur in them (\<^verbatim>\<open>'Dec-2015'\<close> is 2015-12-01 00:00).
\<close>

definition example_dates :: "(string \<times> timestamp) list" where
  "example_dates =
     [(''Jun-2014'', Timestamp 2014 6 1 0), (''Dec-2015'', Timestamp 2015 12 1 0),
      (''Mar-2016'', Timestamp 2016 3 1 0), (''Jan-2021'', Timestamp 2021 1 1 0)]"

definition example_to_datetime :: to_datetime where
  "example_to_datetime col =
     (if list_all (\<lambda>v. case v of CStr s \<Rightarrow> s \<in> fst ` set example_dates
                     | CTime _ \<Rightarrow> True | CNaT \<Rightarrow> True | CNaN \<Rightarrow> True | _ \<Rightarrow> False) col
      then Inr (map (\<lambda>v. case v of CStr s \<Rightarrow> map_of example_dates s
                     | CTime t \<Rightarrow> Some t | _ \<Rightarrow> None) col)
      else Inl ValueError)"

definition example_row :: "int \<Rightarrow> string \<Rightarrow> string \<Rightarrow> row" where
  "example_row n d s =
     [''id'' \<mapsto> CInt n, ''issue_d'' \<mapsto> CStr d, ''loan_status'' \<mapsto> CStr s,
      ''total_pymnt'' \<mapsto> CInt 1000, ''emp_title'' \<mapsto> CStr ''clerk'']"

definition example_table :: dataframe where
  "example_table =
     \<lparr>columns = [''id'', ''issue_d'', ''loan_status'', ''total_pymnt'', ''emp_title''],
      rows = [example_row 1 ''Dec-2015'' ''Fully Paid'',
              example_row 2 ''Mar-2016'' ''Charged Off'',
              example_row 3 ''Jun-2014'' ''Fully Paid'',
              example_row 4 ''Mar-2016'' ''Current'',
              example_row 5 ''Jan-2021'' ''Default'']\<rparr>"

definition example_run :: "dataframe \<times> (error + dataframe)" where
  "example_run = anonymize_and_filter_data example_to_datetime example_table"

definition example_wide_row :: "string \<Rightarrow> string \<Rightarrow> row" where
  "example_wide_row d s =
     (\<lambda>c. if c \<in> set (future_leak_cols @ privacy_cols) then Some CNaN else None)
       (''issue_d'' \<mapsto> CStr d, ''loan_status'' \<mapsto> CStr s, ''loan_amnt'' \<mapsto> CInt 5000)"

definition example_wide :: dataframe where
  "example_wide =
     \<lparr>columns = [''issue_d'', ''loan_status'', ''loan_amnt''] @ future_leak_cols @ privacy_cols,
      rows = [example_wide_row ''Dec-2015'' ''Fully Paid'',
              example_wide_row ''Mar-2016'' ''Default'']\<rparr>"

definition example_wide_run :: "dataframe \<times> (error + dataframe)" where
  "example_wide_run = anonymize_and_filter_data example_to_datetime example_wide"

definition example_paid_only :: dataframe where
  "example_paid_only =
     \<lparr>columns = [''id'', ''issue_d'', ''loan_status'', ''total_pymnt'', ''emp_title''],
      rows = [example_row 1 ''Dec-2015'' ''Fully Paid'',
              example_row 2 ''Mar-2016'' ''Fully Paid'',
              example_row 3 ''Mar-2016'' ''Current'']\<rparr>"

text \<open>
  For the sampling examples \<open>astype_str\<close> is Python's \<^verbatim>\<open>str\<close> on integers, strings,
  booleans and on floats that hold whole numbers (as the years of a column with a missing
  date do); it keeps a missing cell missing. The shuffle is a rotation that depends on
  the seed.
\<close>

fun digits :: "nat \<Rightarrow> string" where
  "digits n = (if n < 10 then [char_of (48 + n)] else digits (n div 10) @ [char_of (48 + n mod 10)])"

declare digits.simps [simp del]

definition int_str :: "int \<Rightarrow> string" where
  "int_str n = (if n < 0 then ''-'' @ digits (nat (- n)) else digits (nat n))"

definition example_astype_str :: astype_str where
  "example_astype_str v =
     (case v of
        CInt n \<Rightarrow> Some (int_str n)
      | CStr s \<Rightarrow> Some s
      | CBool b \<Rightarrow> Some (if b then ''True'' else ''False'')
      | CFloat x \<Rightarrow> Some (int_str \<lfloor>x\<rfloor> @ ''.0'')
      | CTime t \<Rightarrow> None
      | CNaT \<Rightarrow> None
      | CNaN \<Rightarrow> None)"

definition example_permutation :: permutation where
  "example_permutation seed n = rotate (Suc (nat (seed mod 3))) [0..<n]"

definition example_loan :: "int \<Rightarrow> int \<Rightarrow> int \<Rightarrow> row" where
  "example_loan n y t =
     [''id'' \<mapsto> CInt n, ''issue_d'' \<mapsto> CTime (Timestamp y 3 1 0), ''target_default'' \<mapsto> CInt t]"

definition example_3 :: dataframe where
  "example_3 =
     \<lparr>columns = [''id'', ''issue_d'', ''target_default''],
      rows = [example_loan 1 2016 0, example_loan 2 2016 0, example_loan 3 2016 1]\<rparr>"

definition example_3_run :: "dataframe \<times> (error + dataframe)" where
  "example_3_run = create_stratified_sample example_astype_str example_permutation example_3 2 42"




definition observe :: "string list \<Rightarrow> dataframe \<Rightarrow> string list \<times> cell option list list" where
  "observe cs d = (columns d, map (\<lambda>r. map r cs) (rows d))"

definition observe_run ::
  "string list \<Rightarrow> dataframe \<times> (error + dataframe) \<Rightarrow>
     (string list \<times> cell option list list) \<times> (error + string list \<times> cell option list list)" where
  "observe_run cs run = (observe cs (fst run), map_sum id (observe cs) (snd run))"

definition example_source :: dataframe where
  "example_source =
     \<lparr>columns = [''id'', ''issue_d'', ''target_default''],
      rows = [example_loan 1 2015 0, example_loan 2 2016 0, example_loan 3 2016 1]\<rparr>"

definition example_sample :: dataframe where
  "example_sample =
     \<lparr>columns = [''id'', ''issue_d'', ''target_default''],
      rows = [example_loan 2 2016 0, example_loan 3 2016 1]\<rparr>"

definition example_analysis :: "(dataframe \<times> dataframe) \<times> (error + comparison_row list)" where
  "example_analysis = analyze_temporal_distribution example_source example_sample"

section \<open>Properties of the arithmetic\<close>

text \<open>
  Two known doubles: 0.1 is \<open>3602879701896397 / 2 ^ 55\<close>, and \<^verbatim>\<open>0.29 * 100\<close> is below 29.
\<close>

lemma fl_one_tenth: "fl (1 / 10) = 3602879701896397 / 36028797018963968"
  by code_simp

lemma fmul_29_percent: "py_int (fmul 100 (fdiv 29 100)) = 28"
  by code_simp



section \<open>Properties of the loader\<close>

lemma gzip_suffix_not_gz: "suffix ''.gzip'' p \<Longrightarrow> \<not> suffix ''.gz'' p"
proof
  assume a: "suffix ''.gzip'' p" and b: "suffix ''.gz'' p"
  from a obtain u where u: "p = u @ ''.gzip''" by (auto simp: suffix_def)
  from b obtain v where v: "p = v @ ''.gz''" by (auto simp: suffix_def)
  from u v have "rev (u @ ''.gzip'') = rev (v @ ''.gz'')" by simp
  then show False by simp
qed

lemma take2_magic:
  "take 2 bs = [a, b] \<longleftrightarrow> 2 \<le> length bs \<and> bs ! 0 = a \<and> bs ! 1 = b"
proof (cases bs)
  case Nil
  then show ?thesis by simp
next
  case (Cons x xs)
  then show ?thesis by (cases xs) (auto simp: numeral_2_eq_2)
qed

text \<open>
  C8. The compression handed to the reader, as a function of the path and of the file's
  first two bytes: a path ending in \<^verbatim>\<open>.gz\<close> is read as gzip; a path ending in
  \<^verbatim>\<open>.gzip\<close> is read as gzip exactly when the file's first two bytes are 0x1F 0x8B and as
  uncompressed otherwise; every other path is read as uncompressed.
\<close>

theorem load_compression_decision:
  "(endswith p ''.gz'' \<longrightarrow>
      load_lending_club_data read_csv fs p = read_csv p Gzip) \<and>
   (endswith p ''.gzip'' \<and> fs p = Some bs \<longrightarrow>
      load_lending_club_data read_csv fs p =
        read_csv p (if 2 \<le> length bs \<and> bs ! 0 = 0x1F \<and> bs ! 1 = 0x8B
                    then Gzip else Uncompressed)) \<and>
   (\<not> endswith p ''.gz'' \<and> \<not> endswith p ''.gzip'' \<longrightarrow>
      load_lending_club_data read_csv fs p = read_csv p Uncompressed)"
  using gzip_suffix_not_gz [of p] take2_magic [of bs "0x1F" "0x8B"]
  by (auto simp: load_lending_club_data_def detect_compression_def endswith_def
      read_bytes_def gzip_magic_def)

theorem load_compression_decision_witness:
  "load_lending_club_data (\<lambda>p c. Inr (p, c)) Map.empty ''loans.csv.gz'' = Inr (''loans.csv.gz'', Gzip) \<and>
   load_lending_club_data (\<lambda>p c. Inr (p, c)) [''data.gzip'' \<mapsto> [0x1F, 0x8B, 0x08]] ''data.gzip''
     = Inr (''data.gzip'', Gzip) \<and>
   load_lending_club_data (\<lambda>p c. Inr (p, c)) [''data.gzip'' \<mapsto> [0x69, 0x64, 0x2C]] ''data.gzip''
     = Inr (''data.gzip'', Uncompressed) \<and>
   load_lending_club_data (\<lambda>p c. Inr (p, c)) Map.empty ''loans.csv'' = Inr (''loans.csv'', Uncompressed)"
  using load_compression_decision [of "''loans.csv.gz''" "\<lambda>p c. Inr (p, c)" Map.empty "[]"]
    load_compression_decision [of "''data.gzip''" "\<lambda>p c. Inr (p, c)"
      "[''data.gzip'' \<mapsto> [0x1F, 0x8B, 0x08]]" "[0x1F, 0x8B, 0x08]"]
    load_compression_decision [of "''data.gzip''" "\<lambda>p c. Inr (p, c)"
      "[''data.gzip'' \<mapsto> [0x69, 0x64, 0x2C]]" "[0x69, 0x64, 0x2C]"]
    load_compression_decision [of "''loans.csv''" "\<lambda>p c. Inr (p, c)" Map.empty "[]"]
  by (simp add: endswith_def suffix_to_prefix)

section \<open>Properties of anonymization and filtering\<close>

lemma div_series_map: "div_series s n = map (\<lambda>(k, c). (k, count_over_len c n)) s"
  by (induction s n rule: div_series.induct) auto

lemma select_by_map: "map snd (filter fst (zip (map P xs) xs)) = filter P xs"
  by (induction xs) auto

lemma update_by_map:
  "map (\<lambda>(r, v). r(c \<mapsto> v)) (zip xs (map f xs)) = map (\<lambda>r. r(c \<mapsto> f r)) xs"
  by (induction xs) auto

lemma period_mask:
  "mask_and (ge_date (map f xs) period_start) (le_date (map f xs) period_end)
     = map (\<lambda>r. in_period (f r)) xs"
  by (induction xs) (auto simp: mask_and_def ge_date_def le_date_def in_period_def split: cell.splits)

lemma isin_map: "isin (map f xs) vals = map (\<lambda>r. status_in vals (f r)) xs"
  by (simp add: isin_def status_in_def)

lemma filter_period_Inr:
  "filter_period df = Inr d \<Longrightarrow>
     columns d = columns df \<and>
     rows d = filter (\<lambda>r. in_period (cell_at r ''issue_d'')) (rows df)"
  by (auto simp: filter_period_def getitem_def select_rows_def period_mask select_by_map
      split: if_splits)

lemma filter_status_Inr:
  "filter_status df = Inr d \<Longrightarrow>
     ''loan_status'' \<in> set (columns df) \<and> columns d = columns df \<and>
     rows d = filter (\<lambda>r. status_in (paid_status @ default_status) (cell_at r ''loan_status'')) (rows df)"
  by (auto simp: filter_status_def getitem_def select_rows_def isin_map select_by_map
      split: if_splits)

lemma add_target_Inr:
  "add_target df = Inr d \<Longrightarrow>
     columns d = (if ''target_default'' \<in> set (columns df) then columns df
                  else columns df @ [''target_default'']) \<and>
     rows d = map (\<lambda>r. r(''target_default'' \<mapsto> target_of r)) (rows df)"
  by (auto simp: add_target_def getitem_def setitem_def isin_map astype_int_def target_of_def
      update_by_map comp_def split: if_splits)

lemma drop_existing_Inr:
  "drop_existing df cols =
     Inr \<lparr>columns = filter (\<lambda>c. c \<notin> set cols) (columns df),
          rows = map (\<lambda>r. r |` (- (set cols \<inter> set (columns df)))) (rows df)\<rparr>"
proof -
  have "filter (\<lambda>c. c \<notin> set (filter (\<lambda>col. col \<in> set (columns df)) cols)) (columns df)
          = filter (\<lambda>c. c \<notin> set cols) (columns df)"
    by (rule filter_cong) auto
  moreover have "set (filter (\<lambda>col. col \<in> set (columns df)) cols) = set cols \<inter> set (columns df)"
    by auto
  ultimately show ?thesis
    by (simp add: drop_existing_def drop_columns_def Let_def)
qed

lemma status_in_iff: "status_in vals v \<longleftrightarrow> (\<exists>s. v = CStr s \<and> s \<in> set vals)"
  by (cases v) (auto simp: status_in_def)

lemma in_period_iff:
  "in_period v \<longleftrightarrow> (\<exists>t. v = CTime t \<and> ts_le period_start t \<and> ts_le t period_end)"
  by (cases v) (auto simp: in_period_def)

lemma value_counts_keys: "fst ` set (value_counts col) = {v \<in> set col. \<not> is_missing v}"
  by (auto simp: value_counts_def unique_def Let_def image_iff)

lemma series_get_Inr_iff: "(\<exists>v. series_get s k = Inr v) \<longleftrightarrow> k \<in> fst ` set s"
  using map_of_eq_None_iff [of s k] by (auto simp: series_get_def split: option.splits)

lemma series_get_Inl: "series_get s k = Inl e \<Longrightarrow> e = KeyError"
  by (auto simp: series_get_def split: option.splits)

lemma normalized_keys: "fst ` set (value_counts_normalized col) = fst ` set (value_counts col)"
  by (force simp: value_counts_normalized_def Let_def div_series_map)

lemma report_target_dist_ok:
  "(\<exists>x. report_target_dist d = Inr x) \<longleftrightarrow>
     ''target_default'' \<in> set (columns d) \<and>
     CInt 0 \<in> (\<lambda>r. cell_at r ''target_default'') ` set (rows d) \<and>
     CInt 1 \<in> (\<lambda>r. cell_at r ''target_default'') ` set (rows d)"
proof (cases "''target_default'' \<in> set (columns d)")
  case False
  then show ?thesis by (simp add: report_target_dist_def getitem_def)
next
  case True
  let ?col = "map (\<lambda>r. cell_at r ''target_default'') (rows d)"
  let ?s = "value_counts_normalized ?col"
  have keys: "\<And>n. (\<exists>v. series_get ?s (CInt n) = Inr v) \<longleftrightarrow> CInt n \<in> set ?col"
    by (simp only: series_get_Inr_iff normalized_keys value_counts_keys)
       (simp add: is_missing_def)
  have "(\<exists>x. report_target_dist d = Inr x) \<longleftrightarrow>
          (\<exists>v. series_get ?s (CInt 0) = Inr v) \<and> (\<exists>v. series_get ?s (CInt 1) = Inr v)"
    using True by (auto simp: report_target_dist_def getitem_def Let_def split: sum.splits)
  then show ?thesis using True by (simp only: keys) auto
qed

lemma report_target_dist_err: "report_target_dist d = Inl e \<Longrightarrow> e = KeyError"
  by (auto simp: report_target_dist_def getitem_def Let_def dest: series_get_Inl
      split: sum.splits if_splits)

lemma filtered_stage_Inr:
  "filtered_stage df1 = Inr f \<Longrightarrow>
     ''loan_status'' \<in> set (columns df1) \<and> columns f = columns df1 \<and>
     rows f = filter survives (rows df1)"
  unfolding survives_def [abs_def]
  by (auto simp: filtered_stage_def split: sum.splits
      dest!: filter_period_Inr filter_status_Inr)

lemma finish_anonymize_Inr:
  assumes "finish_anonymize df1 = Inr out"
  shows "columns out =
           filter (\<lambda>c. c \<notin> set privacy_cols)
             (filter (\<lambda>c. c \<notin> set future_leak_cols) (with_target (columns df1)))"
    and "\<exists>A B. A \<subseteq> set future_leak_cols \<and> B \<subseteq> set privacy_cols \<and>
           rows out = map (\<lambda>r. (r(''target_default'' \<mapsto> target_of r)) |` (- A) |` (- B))
                        (filter survives (rows df1))"
proof -
  from assms obtain f t x n where
    f: "filtered_stage df1 = Inr f" and t: "add_target f = Inr t" and
    n: "drop_existing t future_leak_cols = Inr n" and
    o: "drop_existing n privacy_cols = Inr out"
    by (auto simp: finish_anonymize_def split: sum.splits)
  note F = filtered_stage_Inr [OF f] and T = add_target_Inr [OF t]
  from n have N: "n = \<lparr>columns = filter (\<lambda>c. c \<notin> set future_leak_cols) (columns t),
          rows = map (\<lambda>r. r |` (- (set future_leak_cols \<inter> set (columns t)))) (rows t)\<rparr>"
    by (simp add: drop_existing_Inr)
  from o have O: "out = \<lparr>columns = filter (\<lambda>c. c \<notin> set privacy_cols) (columns n),
          rows = map (\<lambda>r. r |` (- (set privacy_cols \<inter> set (columns n)))) (rows n)\<rparr>"
    by (simp add: drop_existing_Inr)
  show "columns out =
           filter (\<lambda>c. c \<notin> set privacy_cols)
             (filter (\<lambda>c. c \<notin> set future_leak_cols) (with_target (columns df1)))"
    using F T by (simp add: O N with_target_def)
  have "rows out = map (\<lambda>r. (r(''target_default'' \<mapsto> target_of r))
                     |` (- (set future_leak_cols \<inter> set (columns t)))
                     |` (- (set privacy_cols \<inter> set (columns n))))
                        (filter survives (rows df1))"
    using F T by (simp add: O N comp_def)
  then show "\<exists>A B. A \<subseteq> set future_leak_cols \<and> B \<subseteq> set privacy_cols \<and>
           rows out = map (\<lambda>r. (r(''target_default'' \<mapsto> target_of r)) |` (- A) |` (- B))
                        (filter survives (rows df1))"
    by (intro exI [of _ "set future_leak_cols \<inter> set (columns t)"]
              exI [of _ "set privacy_cols \<inter> set (columns n)"]) simp
qed

lemma kept_labels:
  "''issue_d'' \<notin> set future_leak_cols" "''issue_d'' \<notin> set privacy_cols"
  "''loan_status'' \<notin> set future_leak_cols" "''loan_status'' \<notin> set privacy_cols"
  "''target_default'' \<notin> set future_leak_cols" "''target_default'' \<notin> set privacy_cols"
  by (simp_all add: future_leak_cols_def privacy_cols_def)

lemma out_row_cells:
  assumes "finish_anonymize df1 = Inr out" and "r' \<in> set (rows out)"
  shows "\<exists>r \<in> set (rows df1). survives r \<and>
           cell_at r' ''issue_d'' = cell_at r ''issue_d'' \<and>
           cell_at r' ''loan_status'' = cell_at r ''loan_status'' \<and>
           r' ''target_default'' = Some (target_of r)"
proof -
  from finish_anonymize_Inr(2) [OF assms(1)] obtain A B where
    A: "A \<subseteq> set future_leak_cols" and B: "B \<subseteq> set privacy_cols" and
    R: "rows out = map (\<lambda>r. (r(''target_default'' \<mapsto> target_of r)) |` (- A) |` (- B))
                        (filter survives (rows df1))"
    by blast
  from assms(2) R obtain r where r: "r \<in> set (rows df1)" "survives r"
    and r': "r' = (r(''target_default'' \<mapsto> target_of r)) |` (- A) |` (- B)"
    by auto
  have "''issue_d'' \<notin> A" "''issue_d'' \<notin> B" "''loan_status'' \<notin> A" "''loan_status'' \<notin> B"
    "''target_default'' \<notin> A" "''target_default'' \<notin> B"
    using A B kept_labels by blast+
  then have "cell_at r' ''issue_d'' = cell_at r ''issue_d'' \<and>
           cell_at r' ''loan_status'' = cell_at r ''loan_status'' \<and>
           r' ''target_default'' = Some (target_of r)"
    by (simp add: r' cell_at_def restrict_map_def)
  with r show ?thesis by blast
qed

lemma example_run_ok: "\<not> isl (snd example_run)"
  by code_simp

lemma example_run_cells:
  "map (\<lambda>r. (r ''id'', r ''issue_d'', r ''loan_status'', r ''target_default'', r ''emp_title''))
     (rows (projr (snd example_run))) =
   [(Some (CInt 1), Some (CTime (Timestamp 2015 12 1 0)), Some (CStr ''Fully Paid''), Some (CInt 0), None),
    (Some (CInt 2), Some (CTime (Timestamp 2016 3 1 0)), Some (CStr ''Charged Off''), Some (CInt 1), None)]"
  by code_simp

lemma example_wide_run_ok: "\<not> isl (snd example_wide_run)"
  by code_simp

lemma example_wide_has_all:
  "set future_leak_cols \<union> set privacy_cols \<subseteq> set (columns example_wide)"
  by (auto simp: example_wide_def)

lemma run_result: "\<not> isl (snd p) \<Longrightarrow> p = (fst p, Inr (projr (snd p)))"
  by (cases p) (auto simp: isl_def)

text \<open>
  C1. Every record of the table that \<^verbatim>\<open>anonymize_and_filter_data\<close> returns has an
  \<^verbatim>\<open>issue_d\<close> that is a timestamp from 2015-01-01 to 2020-12-31 inclusive, and a
  \<^verbatim>\<open>loan_status\<close> that is one of the paid or of the default statuses; no other status
  occurs in the output.
\<close>

theorem retained_records_in_period_and_resolved:
  assumes "anonymize_and_filter_data to_dt df = (df', Inr out)"
    and "r \<in> set (rows out)"
  shows "(\<exists>t. cell_at r ''issue_d'' = CTime t \<and>
              ts_le (Timestamp 2015 1 1 0) t \<and> ts_le t (Timestamp 2020 12 31 0)) \<and>
         (\<exists>s. cell_at r ''loan_status'' = CStr s \<and>
              (s \<in> set paid_status \<or> s \<in> set default_status))"
proof -
  from assms(1) obtain df1 where "finish_anonymize df1 = Inr out"
    by (auto simp: anonymize_and_filter_data_def split: sum.splits)
  from out_row_cells [OF this assms(2)] obtain r0 where
    "survives r0" "cell_at r ''issue_d'' = cell_at r0 ''issue_d''"
    "cell_at r ''loan_status'' = cell_at r0 ''loan_status''"
    by blast
  then show ?thesis
    by (auto simp: survives_def in_period_iff status_in_iff period_start_def period_end_def)
qed

theorem retained_records_in_period_and_resolved_witness:
  "(\<exists>t. cell_at (hd (rows (projr (snd example_run)))) ''issue_d'' = CTime t \<and>
        ts_le (Timestamp 2015 1 1 0) t \<and> ts_le t (Timestamp 2020 12 31 0)) \<and>
   (\<exists>s. cell_at (hd (rows (projr (snd example_run)))) ''loan_status'' = CStr s \<and>
        (s \<in> set paid_status \<or> s \<in> set default_status))"
proof -
  have run: "anonymize_and_filter_data example_to_datetime example_table =
      (fst example_run, Inr (projr (snd example_run)))"
    using run_result [OF example_run_ok] by (simp add: example_run_def)
  have "rows (projr (snd example_run)) \<noteq> []"
    using example_run_cells by auto
  then have "hd (rows (projr (snd example_run))) \<in> set (rows (projr (snd example_run)))"
    by simp
  from retained_records_in_period_and_resolved [OF run this] show ?thesis .
qed

text \<open>
  C2. In the returned table \<^verbatim>\<open>target_default\<close> is a column, every record holds 1 or 0
  under it, and it holds 1 exactly when the record's \<^verbatim>\<open>loan_status\<close> is one of the
  default statuses: the label is a total function of the status.
\<close>

theorem target_default_iff_default_status:
  assumes "anonymize_and_filter_data to_dt df = (df', Inr out)"
    and "r \<in> set (rows out)"
  shows "''target_default'' \<in> set (columns out) \<and>
         (r ''target_default'' = Some (CInt 1) \<or> r ''target_default'' = Some (CInt 0)) \<and>
         (r ''target_default'' = Some (CInt 1) \<longleftrightarrow>
            (\<exists>s. cell_at r ''loan_status'' = CStr s \<and> s \<in> set default_status))"
proof -
  from assms(1) obtain df1 where fin: "finish_anonymize df1 = Inr out"
    by (auto simp: anonymize_and_filter_data_def split: sum.splits)
  from out_row_cells [OF fin assms(2)] obtain r0 where
    "cell_at r ''loan_status'' = cell_at r0 ''loan_status''"
    "r ''target_default'' = Some (target_of r0)"
    by blast
  moreover have "''target_default'' \<in> set (columns out)"
    using finish_anonymize_Inr(1) [OF fin] kept_labels by (simp add: with_target_def)
  ultimately show ?thesis
    by (auto simp: target_of_def status_in_iff)
qed

theorem target_default_iff_default_status_witness:
  "map (\<lambda>r. (cell_at r ''loan_status'', r ''target_default'')) (rows (projr (snd example_run))) =
     [(CStr ''Fully Paid'', Some (CInt 0)), (CStr ''Charged Off'', Some (CInt 1))] \<and>
   list_all (\<lambda>r. (r ''target_default'' = Some (CInt 1)) =
                   (\<exists>s. cell_at r ''loan_status'' = CStr s \<and> s \<in> set default_status))
     (rows (projr (snd example_run)))"
proof -
  have run: "anonymize_and_filter_data example_to_datetime example_table =
      (fst example_run, Inr (projr (snd example_run)))"
    using run_result [OF example_run_ok] by (simp add: example_run_def)
  have "map (\<lambda>r. (cell_at r ''loan_status'', r ''target_default'')) (rows (projr (snd example_run))) =
     [(CStr ''Fully Paid'', Some (CInt 0)), (CStr ''Charged Off'', Some (CInt 1))]"
    by code_simp
  moreover have "list_all (\<lambda>r. (r ''target_default'' = Some (CInt 1)) =
                   (\<exists>s. cell_at r ''loan_status'' = CStr s \<and> s \<in> set default_status))
     (rows (projr (snd example_run)))"
    unfolding list_all_iff using target_default_iff_default_status [OF run] by blast
  ultimately show ?thesis by blast
qed

lemma drop_absent: "set cols \<inter> set (columns d) = {} \<Longrightarrow> drop_existing d cols = Inr d"
proof -
  assume a: "set cols \<inter> set (columns d) = {}"
  then have "filter (\<lambda>c. c \<notin> set cols) (columns d) = columns d"
    by (auto simp: filter_id_conv)
  moreover have "map (\<lambda>r. r |` (- (set cols \<inter> set (columns d)))) (rows d) = rows d"
    using a by (simp add: restrict_map_def)
  ultimately show ?thesis by (simp add: drop_existing_Inr)
qed

text \<open>
  C3. None of the 16 leakage columns and none of the 5 privacy columns is a column of the
  returned table, whichever of them the input has. The dropping step itself never raises:
  on any table it returns the table without those of the listed columns that are present,
  and the table itself when none of them is present.
\<close>

theorem no_leakage_or_privacy_columns:
  "(anonymize_and_filter_data to_dt df = (df', Inr out) \<longrightarrow>
      (\<forall>c \<in> set future_leak_cols \<union> set privacy_cols.
          c \<notin> set (columns out) \<and> getitem out c = Inl KeyError)) \<and>
   length future_leak_cols = 16 \<and> length privacy_cols = 5 \<and>
   (\<exists>d'. drop_existing d future_leak_cols = Inr d' \<and>
          columns d' = filter (\<lambda>c. c \<notin> set future_leak_cols) (columns d)) \<and>
   (\<exists>d'. drop_existing d privacy_cols = Inr d' \<and>
          columns d' = filter (\<lambda>c. c \<notin> set privacy_cols) (columns d)) \<and>
   (set future_leak_cols \<inter> set (columns d) = {} \<longrightarrow> drop_existing d future_leak_cols = Inr d) \<and>
   (set privacy_cols \<inter> set (columns d) = {} \<longrightarrow> drop_existing d privacy_cols = Inr d)"
proof -
  have "\<forall>c \<in> set future_leak_cols \<union> set privacy_cols.
          c \<notin> set (columns out) \<and> getitem out c = Inl KeyError"
    if run: "anonymize_and_filter_data to_dt df = (df', Inr out)"
  proof -
    from run obtain df1 where fin: "finish_anonymize df1 = Inr out"
      by (auto simp: anonymize_and_filter_data_def split: sum.splits)
    have "\<forall>c \<in> set future_leak_cols \<union> set privacy_cols. c \<notin> set (columns out)"
      by (auto simp: finish_anonymize_Inr(1) [OF fin])
    then show ?thesis by (simp add: getitem_def)
  qed
  moreover have "length future_leak_cols = 16" "length privacy_cols = 5"
    by (simp_all add: future_leak_cols_def privacy_cols_def)
  moreover have "\<exists>d'. drop_existing d future_leak_cols = Inr d' \<and>
          columns d' = filter (\<lambda>c. c \<notin> set future_leak_cols) (columns d)"
    "\<exists>d'. drop_existing d privacy_cols = Inr d' \<and>
          columns d' = filter (\<lambda>c. c \<notin> set privacy_cols) (columns d)"
    by (simp_all add: drop_existing_Inr)
  moreover have
    "set future_leak_cols \<inter> set (columns d) = {} \<longrightarrow> drop_existing d future_leak_cols = Inr d"
    "set privacy_cols \<inter> set (columns d) = {} \<longrightarrow> drop_existing d privacy_cols = Inr d"
    using drop_absent by blast+
  ultimately show ?thesis by blast
qed

theorem no_leakage_or_privacy_columns_witness:
  "set future_leak_cols \<union> set privacy_cols \<subseteq> set (columns example_wide) \<and>
   columns (projr (snd example_wide_run)) =
     [''issue_d'', ''loan_status'', ''loan_amnt'', ''target_default''] \<and>
   list_all (\<lambda>c. c \<notin> set (columns (projr (snd example_wide_run))) \<and>
                 getitem (projr (snd example_wide_run)) c = Inl KeyError)
     (future_leak_cols @ privacy_cols) \<and>
   \<not> isl (drop_existing example_table future_leak_cols) \<and>
   columns (projr (drop_existing example_table future_leak_cols)) =
     [''id'', ''issue_d'', ''loan_status'', ''emp_title'']"
proof -
  have run: "anonymize_and_filter_data example_to_datetime example_wide =
      (fst example_wide_run, Inr (projr (snd example_wide_run)))"
    using run_result [OF example_wide_run_ok] by (simp add: example_wide_run_def)
  have "columns (projr (snd example_wide_run)) =
     [''issue_d'', ''loan_status'', ''loan_amnt'', ''target_default'']"
    by code_simp
  moreover have "list_all (\<lambda>c. c \<notin> set (columns (projr (snd example_wide_run))) \<and>
                 getitem (projr (snd example_wide_run)) c = Inl KeyError)
     (future_leak_cols @ privacy_cols)"
    unfolding list_all_iff
    using no_leakage_or_privacy_columns
      [of example_to_datetime example_wide "fst example_wide_run"
          "projr (snd example_wide_run)" example_table] run
    by simp
  moreover have "\<not> isl (drop_existing example_table future_leak_cols) \<and>
      columns (projr (drop_existing example_table future_leak_cols)) =
        [''id'', ''issue_d'', ''loan_status'', ''emp_title'']"
    by (simp add: drop_existing_Inr) (simp add: example_table_def future_leak_cols_def)
  ultimately show ?thesis using example_wide_has_all by blast
qed

lemma paid_not_default: "s \<in> set paid_status \<Longrightarrow> s \<notin> set default_status"
  by (auto simp: paid_status_def default_status_def)

text \<open>
  C9. When the records that survive the date and the status filter are all paid, or all
  default, the call raises \<^verbatim>\<open>KeyError\<close> at the label-distribution line (it reads the
  share of label 0 and of label 1) and returns no table. The caller's table keeps the
  parsed \<^verbatim>\<open>issue_d\<close>.
\<close>

theorem single_label_class_raises:
  assumes "parse_issue_d to_dt df = Inr df1"
    and "filtered_stage df1 = Inr survivors"
    and "(\<forall>r \<in> set (rows survivors).
            \<exists>s. cell_at r ''loan_status'' = CStr s \<and> s \<in> set paid_status) \<or>
         (\<forall>r \<in> set (rows survivors).
            \<exists>s. cell_at r ''loan_status'' = CStr s \<and> s \<in> set default_status)"
  shows "anonymize_and_filter_data to_dt df = (df1, Inl KeyError)"
proof -
  from filtered_stage_Inr [OF assms(2)]
  have ls: "''loan_status'' \<in> set (columns survivors)" by simp
  then obtain t where t: "add_target survivors = Inr t"
    by (auto simp: add_target_def getitem_def setitem_def astype_int_def isin_def)
  note T = add_target_Inr [OF t]
  have img: "(\<lambda>r. cell_at r ''target_default'') ` set (rows t) = target_of ` set (rows survivors)"
    using T by (auto simp: cell_at_def image_iff)
  from assms(3) have "CInt 1 \<notin> target_of ` set (rows survivors) \<or>
      CInt 0 \<notin> target_of ` set (rows survivors)"
  proof
    assume "\<forall>r \<in> set (rows survivors).
            \<exists>s. cell_at r ''loan_status'' = CStr s \<and> s \<in> set paid_status"
    then have "\<forall>r \<in> set (rows survivors). target_of r = CInt 0"
      using paid_not_default by (fastforce simp: target_of_def status_in_iff)
    then have "CInt 1 \<notin> target_of ` set (rows survivors)"
      by auto
    then show ?thesis ..
  next
    assume "\<forall>r \<in> set (rows survivors).
            \<exists>s. cell_at r ''loan_status'' = CStr s \<and> s \<in> set default_status"
    then have "CInt 0 \<notin> target_of ` set (rows survivors)"
      by (auto simp: target_of_def status_in_iff)
    then show ?thesis ..
  qed
  with img have "\<not> (\<exists>x. report_target_dist t = Inr x)"
    unfolding report_target_dist_ok by auto
  then obtain e where "report_target_dist t = Inl e"
    by (cases "report_target_dist t") auto
  with report_target_dist_err [OF this] have "report_target_dist t = Inl KeyError" by simp
  then have "finish_anonymize df1 = Inl KeyError"
    by (simp add: finish_anonymize_def assms(2) t)
  then show ?thesis
    by (simp add: anonymize_and_filter_data_def assms(1))
qed

theorem single_label_class_raises_witness:
  "rows (projr (filtered_stage (projr (parse_issue_d example_to_datetime example_paid_only)))) \<noteq> [] \<and>
   snd (anonymize_and_filter_data example_to_datetime example_paid_only) = Inl KeyError"
proof -
  let ?df1 = "projr (parse_issue_d example_to_datetime example_paid_only)"
  let ?f = "projr (filtered_stage ?df1)"
  have "\<not> isl (parse_issue_d example_to_datetime example_paid_only)" by code_simp
  then have p: "parse_issue_d example_to_datetime example_paid_only = Inr ?df1"
    by (cases "parse_issue_d example_to_datetime example_paid_only") auto
  have "\<not> isl (filtered_stage ?df1)" by code_simp
  then have f: "filtered_stage ?df1 = Inr ?f"
    by (cases "filtered_stage ?df1") auto
  have cells: "map (\<lambda>r. cell_at r ''loan_status'') (rows ?f) = [CStr ''Fully Paid'', CStr ''Fully Paid'']"
    by code_simp
  have "\<forall>r \<in> set (rows ?f). cell_at r ''loan_status'' \<in> set (map (\<lambda>r. cell_at r ''loan_status'') (rows ?f))"
    by simp
  then have "\<forall>r \<in> set (rows ?f). \<exists>s. cell_at r ''loan_status'' = CStr s \<and> s \<in> set paid_status"
    unfolding cells by (simp add: paid_status_def)
  then have "anonymize_and_filter_data example_to_datetime example_paid_only = (?df1, Inl KeyError)"
    using single_label_class_raises [OF p f] by blast
  moreover have "rows ?f \<noteq> []" using cells by auto
  ultimately show ?thesis by simp
qed

lemma zip_update_other:
  "length vs = length rs \<Longrightarrow> c \<noteq> k \<Longrightarrow>
     map (\<lambda>r. r c) (map (\<lambda>(r, v). r(k \<mapsto> v)) (zip rs vs)) = map (\<lambda>r. r c) rs"
  by (induction vs rs rule: list_induct2) auto

lemma zip_update_same:
  "length vs = length rs \<Longrightarrow>
     map (\<lambda>r. cell_at r k) (map (\<lambda>(r, v). r(k \<mapsto> v)) (zip rs vs)) = vs"
  by (induction vs rs rule: list_induct2) (auto simp: cell_at_def)

text \<open>
  C6, as amended. The table returned is a new one, but line 102 assigns to the caller's
  table. The column labels, the number of records and every cell outside \<^verbatim>\<open>issue_d\<close>
  are as before the call. Whenever reading the \<^verbatim>\<open>issue_d\<close> column and parsing it both
  succeed (with one timestamp per record), the caller's \<^verbatim>\<open>issue_d\<close> column holds the
  parsed timestamps after the call, whether the call then returns or raises later; in
  particular it does whenever the call returns. Only when the call raises before the
  assignment, in that reading or parsing, is the caller's table untouched.
\<close>

theorem caller_table_after_anonymize:
  assumes "anonymize_and_filter_data to_dt df = (df', res)"
  shows "columns df' = columns df \<and> length (rows df') = length (rows df) \<and>
         (\<forall>c. c \<noteq> ''issue_d'' \<longrightarrow> map (\<lambda>r. r c) (rows df') = map (\<lambda>r. r c) (rows df)) \<and>
         (\<forall>raw parsed. getitem df ''issue_d'' = Inr raw \<and> to_dt raw = Inr parsed \<and>
             length parsed = length (rows df) \<longrightarrow>
             getitem df' ''issue_d'' = Inr (map datetime_cell parsed)) \<and>
         (\<forall>out. res = Inr out \<longrightarrow>
             (\<exists>raw parsed. getitem df ''issue_d'' = Inr raw \<and> to_dt raw = Inr parsed \<and>
                getitem df' ''issue_d'' = Inr (map datetime_cell parsed))) \<and>
         (\<not> (\<exists>raw parsed. getitem df ''issue_d'' = Inr raw \<and> to_dt raw = Inr parsed \<and>
                length parsed = length (rows df)) \<longrightarrow>
             df' = df \<and> isl res)"
proof (cases "parse_issue_d to_dt df")
  case (Inl e)
  with assms have eq: "df' = df" "res = Inl e" by (simp_all add: anonymize_and_filter_data_def)
  from Inl have none: "\<not> (\<exists>raw parsed. getitem df ''issue_d'' = Inr raw \<and> to_dt raw = Inr parsed \<and>
      length parsed = length (rows df))"
    by (auto simp: parse_issue_d_def setitem_def split: sum.splits)
  show ?thesis
  proof (intro conjI allI impI)
    fix raw parsed
    assume "getitem df ''issue_d'' = Inr raw \<and> to_dt raw = Inr parsed \<and>
      length parsed = length (rows df)"
    with none show "getitem df' ''issue_d'' = Inr (map datetime_cell parsed)" by blast
  qed (simp_all add: eq)
next
  case (Inr df1)
  with assms have eq: "df' = df1" by (simp add: anonymize_and_filter_data_def)
  from Inr obtain raw parsed where
    raw: "getitem df ''issue_d'' = Inr raw" and parsed: "to_dt raw = Inr parsed" and
    set: "setitem df ''issue_d'' (map datetime_cell parsed) = Inr df1"
    by (auto simp: parse_issue_d_def split: sum.splits)
  from raw have col: "''issue_d'' \<in> set (columns df)"
    by (auto simp: getitem_def split: if_splits)
  from set have len: "length (map datetime_cell parsed) = length (rows df)"
    and df1: "df1 = \<lparr>columns = columns df,
        rows = map (\<lambda>(r, v). r(''issue_d'' \<mapsto> v)) (zip (rows df) (map datetime_cell parsed))\<rparr>"
    using col by (auto simp: setitem_def split: if_splits)
  have new: "getitem df' ''issue_d'' = Inr (map datetime_cell parsed)"
    using col zip_update_same [OF len] by (simp add: eq df1 getitem_def)
  have others: "\<forall>c. c \<noteq> ''issue_d'' \<longrightarrow> map (\<lambda>r. r c) (rows df') = map (\<lambda>r. r c) (rows df)"
    using zip_update_other [OF len] by (simp add: eq df1)
  have shape: "columns df' = columns df" "length (rows df') = length (rows df)"
    using len by (simp_all add: eq df1)
  have assigned: "getitem df ''issue_d'' = Inr raw' \<and> to_dt raw' = Inr parsed' \<and>
      length parsed' = length (rows df) \<longrightarrow>
      getitem df' ''issue_d'' = Inr (map datetime_cell parsed')" for raw' parsed'
    using raw parsed new by auto
  have returned: "\<exists>raw parsed. getitem df ''issue_d'' = Inr raw \<and> to_dt raw = Inr parsed \<and>
      getitem df' ''issue_d'' = Inr (map datetime_cell parsed)"
    using raw parsed new by blast
  have some: "\<exists>raw parsed. getitem df ''issue_d'' = Inr raw \<and> to_dt raw = Inr parsed \<and>
      length parsed = length (rows df)"
    using raw parsed len by auto
  show ?thesis
    using shape others assigned returned some by blast
qed

theorem caller_table_after_anonymize_witness:
  "columns (fst example_run) = columns example_table \<and>
   length (rows (fst example_run)) = length (rows example_table) \<and>
   map (\<lambda>r. r ''loan_status'') (rows (fst example_run)) =
     map (\<lambda>r. r ''loan_status'') (rows example_table) \<and>
   getitem example_table ''issue_d'' =
     Inr [CStr ''Dec-2015'', CStr ''Mar-2016'', CStr ''Jun-2014'', CStr ''Mar-2016'', CStr ''Jan-2021''] \<and>
   getitem (fst example_run) ''issue_d'' =
     Inr [CTime (Timestamp 2015 12 1 0), CTime (Timestamp 2016 3 1 0), CTime (Timestamp 2014 6 1 0),
          CTime (Timestamp 2016 3 1 0), CTime (Timestamp 2021 1 1 0)]"
proof -
  let ?raw = "[CStr ''Dec-2015'', CStr ''Mar-2016'', CStr ''Jun-2014'', CStr ''Mar-2016'', CStr ''Jan-2021'']"
  let ?parsed = "[Some (Timestamp 2015 12 1 0), Some (Timestamp 2016 3 1 0), Some (Timestamp 2014 6 1 0),
      Some (Timestamp 2016 3 1 0), Some (Timestamp 2021 1 1 0)]"
  have raw: "getitem example_table ''issue_d'' = Inr ?raw"
    by code_simp
  have parsed: "example_to_datetime ?raw = Inr ?parsed"
    by code_simp
  have len: "length ?parsed = length (rows example_table)"
    by (simp add: example_table_def)
  have cells: "map datetime_cell ?parsed =
      [CTime (Timestamp 2015 12 1 0), CTime (Timestamp 2016 3 1 0), CTime (Timestamp 2014 6 1 0),
       CTime (Timestamp 2016 3 1 0), CTime (Timestamp 2021 1 1 0)]"
    by code_simp
  note T = caller_table_after_anonymize
    [of example_to_datetime example_table "fst example_run" "snd example_run"]
  have run: "anonymize_and_filter_data example_to_datetime example_table =
      (fst example_run, snd example_run)"
    by (simp add: example_run_def)
  from T [OF run] raw parsed len
  have "getitem (fst example_run) ''issue_d'' = Inr (map datetime_cell ?parsed)"
    by blast
  moreover from T [OF run]
  have "columns (fst example_run) = columns example_table"
    "length (rows (fst example_run)) = length (rows example_table)"
    "map (\<lambda>r. r ''loan_status'') (rows (fst example_run)) =
      map (\<lambda>r. r ''loan_status'') (rows example_table)"
    by simp_all
  ultimately show ?thesis using raw unfolding cells by simp
qed

text \<open>
  C6 as stated fails: the caller's \<^verbatim>\<open>issue_d\<close> cells are strings before the call and
  timestamps after it.
\<close>

theorem caller_table_mutated_counterexample:
  "getitem example_table ''issue_d'' =
     Inr [CStr ''Dec-2015'', CStr ''Mar-2016'', CStr ''Jun-2014'', CStr ''Mar-2016'', CStr ''Jan-2021''] \<and>
   getitem (fst (anonymize_and_filter_data example_to_datetime example_table)) ''issue_d'' =
     Inr [CTime (Timestamp 2015 12 1 0), CTime (Timestamp 2016 3 1 0), CTime (Timestamp 2014 6 1 0),
          CTime (Timestamp 2016 3 1 0), CTime (Timestamp 2021 1 1 0)] \<and>
   fst (anonymize_and_filter_data example_to_datetime example_table) \<noteq> example_table"
proof -
  have a: "getitem example_table ''issue_d'' =
     Inr [CStr ''Dec-2015'', CStr ''Mar-2016'', CStr ''Jun-2014'', CStr ''Mar-2016'', CStr ''Jan-2021'']"
    by code_simp
  have b: "getitem (fst (anonymize_and_filter_data example_to_datetime example_table)) ''issue_d'' =
     Inr [CTime (Timestamp 2015 12 1 0), CTime (Timestamp 2016 3 1 0), CTime (Timestamp 2014 6 1 0),
          CTime (Timestamp 2016 3 1 0), CTime (Timestamp 2021 1 1 0)]"
    by code_simp
  from a b have "fst (anonymize_and_filter_data example_to_datetime example_table) \<noteq> example_table"
    by auto
  with a b show ?thesis by blast
qed

section \<open>Properties of stratified sampling\<close>





lemma zip_two_maps:
  "map (\<lambda>(a, t). h a t) (zip (map f xs) (map g xs)) = map (\<lambda>x. h (f x) (g x)) xs"
  by (induction xs) auto

lemma add_strata_Inr:
  assumes "add_strata str df1 = Inr df2"
  shows "''ano'' \<in> set (columns df1)" "''target_default'' \<in> set (columns df1)"
    "columns df2 = (if ''strata'' \<in> set (columns df1) then columns df1 else columns df1 @ [''strata''])"
    "rows df2 = map (\<lambda>r. r(''strata'' \<mapsto> label_of str r)) (rows df1)"
proof -
  from assms show a: "''ano'' \<in> set (columns df1)" and t: "''target_default'' \<in> set (columns df1)"
    by (auto simp: add_strata_def getitem_def split: if_splits sum.splits)
  have z: "map (\<lambda>(a, t). strata_label str a t)
        (zip (map (\<lambda>r. cell_at r ''ano'') (rows df1)) (map (\<lambda>r. cell_at r ''target_default'') (rows df1)))
      = map (label_of str) (rows df1)"
    by (simp add: zip_two_maps label_of_def [abs_def])
  from assms a t have s: "setitem df1 ''strata'' (map (label_of str) (rows df1)) = Inr df2"
    by (simp add: add_strata_def getitem_def z)
  then show "columns df2 = (if ''strata'' \<in> set (columns df1) then columns df1 else columns df1 @ [''strata''])"
    by (auto simp: setitem_def)
  from s show "rows df2 = map (\<lambda>r. r(''strata'' \<mapsto> label_of str r)) (rows df1)"
    by (auto simp: setitem_def update_by_map)
qed

lemma add_ano_Inr:
  assumes "add_ano df = Inr df1"
  shows "''issue_d'' \<in> set (columns df)"
    "columns df1 = (if ''ano'' \<in> set (columns df) then columns df else columns df @ [''ano''])"
    "\<exists>years. dt_year (map (\<lambda>r. cell_at r ''issue_d'') (rows df)) = Inr years \<and>
        length years = length (rows df) \<and>
        rows df1 = map (\<lambda>(r, v). r(''ano'' \<mapsto> v)) (zip (rows df) years)"
  using assms
  by (auto simp: add_ano_def getitem_def setitem_def split: if_splits sum.splits)

lemma label_of_strata_upd [simp]: "label_of str (r(''strata'' \<mapsto> v)) = label_of str r"
  by (simp add: label_of_def cell_at_def)

lemma label_of_strata_drop [simp]: "label_of str (r |` (- {''strata''})) = label_of str r"
  by (simp add: label_of_def cell_at_def restrict_map_def)


lemma unique_set [simp]: "set (unique xs) = set xs"
  by (simp add: unique_def)

lemma unique_distinct [simp]: "distinct (unique xs)"
  by (simp add: unique_def)

lemma value_counts_set:
  "set (value_counts col) =
     (\<lambda>k. (k, count_list (filter (\<lambda>v. \<not> is_missing v) col) k)) ` {v \<in> set col. \<not> is_missing v}"
  by (auto simp: value_counts_def Let_def)

lemma distinct_map_insort_key:
  "distinct (map g (insort_key f x xs)) \<longleftrightarrow> g x \<notin> g ` set xs \<and> distinct (map g xs)"
  by (induction xs) (auto simp: set_insort_key)

lemma distinct_map_sort_key: "distinct (map g (sort_key f xs)) \<longleftrightarrow> distinct (map g xs)"
  by (induction xs) (auto simp: distinct_map_insort_key)

lemma value_counts_distinct: "distinct (map fst (value_counts col))"
  by (simp add: value_counts_def Let_def distinct_map_sort_key comp_def)

lemma value_counts_labels:
  assumes "\<forall>v \<in> set col. \<not> is_missing v"
  shows "set (value_counts col) = (\<lambda>k. (k, count_list col k)) ` set col"
proof -
  from assms have "filter (\<lambda>v. \<not> is_missing v) col = col" by (simp add: filter_id_conv)
  then show ?thesis by (simp add: value_counts_set) (use assms in auto)
qed










lemma concat_frames_same:
  assumes "pieces \<noteq> []" and "\<forall>d \<in> set pieces. columns d = cs"
  shows "concat_frames pieces = Inr \<lparr>columns = cs, rows = concat (map rows pieces)\<rparr>"
proof -
  from assms have hd: "columns (hd pieces) = cs" by (cases pieces) auto
  with assms(2) have "list_all (\<lambda>d. columns d = columns (hd pieces)) pieces"
    by (simp add: list_all_iff)
  with hd have cols: "(if list_all (\<lambda>d. columns d = columns (hd pieces)) pieces
        then columns (hd pieces) else unique (concat (map columns pieces))) = cs"
    by simp
  have rws: "concat (map (\<lambda>d. map (\<lambda>r c. if c \<in> set cs \<and> c \<notin> set (columns d) then Some CNaN else r c) (rows d)) pieces)
          = concat (map rows pieces)"
    by (rule arg_cong [where f = concat], rule map_cong) (use assms(2) in simp_all)
  show ?thesis
    unfolding concat_frames_def Let_def cols rws using assms(1) by simp
qed




lemma sample_frame_columns: "sample_frame perm seed n d = Inr d' \<Longrightarrow> columns d' = columns d"
  by (auto simp: sample_frame_def split: if_splits)

lemma draw_strata_columns:
  "draw_strata perm seed df sizes = Inr pieces \<Longrightarrow> \<forall>d \<in> set pieces. columns d = columns df"
proof (induction sizes arbitrary: pieces)
  case Nil
  then show ?case by simp
next
  case (Cons x sizes)
  obtain s k where x: "x = (s, k)" by (cases x)
  show ?case
  proof (cases "0 < k")
    case False
    with Cons show ?thesis by (simp add: x)
  next
    case True
    with Cons.prems obtain col d' rest where
      "getitem df ''strata'' = Inr col" and
      d': "(if k \<le> int (length (rows (select_rows df (map (\<lambda>v. v = s) col))))
            then sample_frame perm seed (nat k) (select_rows df (map (\<lambda>v. v = s) col))
            else Inr (select_rows df (map (\<lambda>v. v = s) col))) = Inr d'" and
      rest: "draw_strata perm seed df sizes = Inr rest" and p: "pieces = d' # rest"
      by (auto simp: x Let_def split: sum.splits)
    from d' have "columns d' = columns df"
      by (auto simp: select_rows_def dest: sample_frame_columns split: if_splits)
    with Cons.IH [OF rest] show ?thesis by (simp add: p)
  qed
qed

lemma stratify_columns:
  assumes "stratify perm df2 t seed = Inr sample"
  shows "columns sample = filter (\<lambda>c. c \<noteq> ''strata'') (columns df2)"
proof -
  from assms obtain sizes pieces dfc where
    pieces: "draw_strata perm seed df2 sizes = Inr pieces" and
    dfc: "concat_frames pieces = Inr dfc" and
    drop: "drop_columns dfc [''strata''] = Inr sample"
    by (auto simp: stratify_def Let_def split: sum.splits)
  from dfc have ne: "pieces \<noteq> []" by (auto simp: concat_frames_def)
  from concat_frames_same [OF ne draw_strata_columns [OF pieces]] dfc
  have "columns dfc = columns df2" by auto
  with drop show ?thesis by (auto simp: drop_columns_def split: if_splits)
qed

lemma draw_strata_cong:
  "\<forall>n. perm1 seed n = perm2 seed n \<Longrightarrow>
     draw_strata perm1 seed df sizes = draw_strata perm2 seed df sizes"
  by (induction sizes) (auto simp: sample_frame_def Let_def split: sum.splits)

lemma stratify_cong:
  assumes "\<forall>n. perm1 seed n = perm2 seed n"
  shows "stratify perm1 df t seed = stratify perm2 df t seed"
proof -
  have "\<And>sizes. draw_strata perm1 seed df sizes = draw_strata perm2 seed df sizes"
    using assms by (rule draw_strata_cong)
  then show ?thesis by (simp add: stratify_def cong: sum.case_cong)
qed

lemma setitem_again:
  assumes "length vs = length rs" and "c \<in> set cs"
  shows "setitem \<lparr>columns = cs, rows = map (\<lambda>(r, v). r(c \<mapsto> v)) (zip rs vs)\<rparr> c vs =
           Inr \<lparr>columns = cs, rows = map (\<lambda>(r, v). r(c \<mapsto> v)) (zip rs vs)\<rparr>"
proof -
  have "map (\<lambda>(r, v). r(c \<mapsto> v)) (zip (map (\<lambda>(r, v). r(c \<mapsto> v)) (zip rs vs)) vs)
          = map (\<lambda>(r, v). r(c \<mapsto> v)) (zip rs vs)"
    using assms(1) by (induction vs rs rule: list_induct2) auto
  then show ?thesis using assms by (simp add: setitem_def)
qed

lemma zip_update_cell_other:
  "length vs = length rs \<Longrightarrow> c \<noteq> k \<Longrightarrow>
     map (\<lambda>r. cell_at r k) (map (\<lambda>(r, v). r(c \<mapsto> v)) (zip rs vs)) = map (\<lambda>r. cell_at r k) rs"
  by (induction vs rs rule: list_induct2) (auto simp: cell_at_def)

lemma add_ano_again:
  assumes "add_ano df = Inr df1"
  shows "add_ano df1 = Inr df1"
proof -
  from add_ano_Inr [OF assms] obtain years where
    i: "''issue_d'' \<in> set (columns df)" and
    c: "columns df1 = (if ''ano'' \<in> set (columns df) then columns df else columns df @ [''ano''])" and
    y: "dt_year (map (\<lambda>r. cell_at r ''issue_d'') (rows df)) = Inr years" and
    l: "length years = length (rows df)" and
    r: "rows df1 = map (\<lambda>(r, v). r(''ano'' \<mapsto> v)) (zip (rows df) years)"
    by blast
  have "map (\<lambda>r. cell_at r ''issue_d'') (rows df1) = map (\<lambda>r. cell_at r ''issue_d'') (rows df)"
    unfolding r using zip_update_cell_other [OF l, of "''ano''" "''issue_d''"] by simp
  moreover have "''issue_d'' \<in> set (columns df1)" "''ano'' \<in> set (columns df1)"
    using i c by auto
  moreover have "df1 = \<lparr>columns = columns df1, rows = map (\<lambda>(r, v). r(''ano'' \<mapsto> v)) (zip (rows df) years)\<rparr>"
    using r by simp
  ultimately show ?thesis
    using setitem_again [OF l, of "''ano''" "columns df1"] y
    by (simp add: add_ano_def getitem_def)
qed

lemma upd_again:
  "length vs = length rs \<Longrightarrow> a \<noteq> b \<Longrightarrow>
     map (\<lambda>(r, v). r(a \<mapsto> v))
       (zip (map (\<lambda>r. r(b \<mapsto> f r)) (map (\<lambda>(r, v). r(a \<mapsto> v)) (zip rs vs))) vs)
     = map (\<lambda>r. r(b \<mapsto> f r)) (map (\<lambda>(r, v). r(a \<mapsto> v)) (zip rs vs))"
proof (induction vs rs rule: list_induct2)
  case Nil
  then show ?case by simp
next
  case (Cons v vs r rs)
  have "(r(a \<mapsto> v, b \<mapsto> f (r(a \<mapsto> v))))(a \<mapsto> v) = r(a \<mapsto> v, b \<mapsto> f (r(a \<mapsto> v)))"
    using Cons.prems by (auto simp: fun_eq_iff)
  with Cons show ?case by (auto simp: fun_eq_iff)
qed

lemma add_ano_strata_again:
  assumes "add_ano df = Inr df1" and "add_strata str df1 = Inr df2"
  shows "add_ano df2 = Inr df2 \<and> add_strata str df2 = Inr df2"
proof -
  note S = add_strata_Inr [OF assms(2)]
  have cols: "''strata'' \<in> set (columns df2)" "''ano'' \<in> set (columns df2)"
    "''target_default'' \<in> set (columns df2)"
    using S by auto
  have lab: "map (label_of str) (rows df2) = map (label_of str) (rows df1)"
    by (simp add: S(4) comp_def)
  have z: "map (\<lambda>(a, t). strata_label str a t)
        (zip (map (\<lambda>r. cell_at r ''ano'') (rows df2)) (map (\<lambda>r. cell_at r ''target_default'') (rows df2)))
      = map (label_of str) (rows df1)"
    unfolding zip_two_maps lab [symmetric] by (simp add: label_of_def)
  have eta: "\<lparr>columns = columns df2, rows = rows df2\<rparr> = df2"
    by (cases df2) simp
  have "setitem df2 ''strata'' (map (label_of str) (rows df1)) = Inr df2"
    using setitem_again [of "map (label_of str) (rows df1)" "rows df1" "''strata''" "columns df2"] cols(1)
    by (simp add: update_by_map S(4) [symmetric] eta)
  then have two: "add_strata str df2 = Inr df2"
    using cols by (simp add: add_strata_def getitem_def z)
  from add_ano_Inr [OF assms(1)] obtain years where
    i: "''issue_d'' \<in> set (columns df)" and
    c: "columns df1 = (if ''ano'' \<in> set (columns df) then columns df else columns df @ [''ano''])" and
    y: "dt_year (map (\<lambda>r. cell_at r ''issue_d'') (rows df)) = Inr years" and
    l: "length years = length (rows df)" and
    r: "rows df1 = map (\<lambda>(r, v). r(''ano'' \<mapsto> v)) (zip (rows df) years)"
    by blast
  have "map (\<lambda>r. cell_at r ''issue_d'') (rows df1) = map (\<lambda>r. cell_at r ''issue_d'') (rows df)"
    unfolding r using zip_update_cell_other [OF l, of "''ano''" "''issue_d''"] by simp
  moreover have "map (\<lambda>r. cell_at r ''issue_d'') (rows df2) = map (\<lambda>r. cell_at r ''issue_d'') (rows df1)"
    by (simp add: S(4) comp_def cell_at_def)
  ultimately have col: "map (\<lambda>r. cell_at r ''issue_d'') (rows df2) = map (\<lambda>r. cell_at r ''issue_d'') (rows df)"
    by simp
  have len: "length years = length (rows df2)" using l r S(4) by simp
  have "map (\<lambda>(r, v). r(''ano'' \<mapsto> v)) (zip (rows df2) years) = rows df2"
    unfolding S(4) r using upd_again [OF l, of "''ano''" "''strata''" "label_of str"] by simp
  moreover have "''issue_d'' \<in> set (columns df2)" using i c S(3) by auto
  ultimately have "add_ano df2 = Inr df2"
    using y len cols(2) by (simp add: add_ano_def getitem_def setitem_def col eta)
  with two show ?thesis by simp
qed

lemma example_3_run_eval:
  "observe_run [''id'', ''ano'', ''strata''] example_3_run =
     (([''id'', ''issue_d'', ''target_default'', ''ano'', ''strata''],
       [[Some (CInt 1), Some (CInt 2016), Some (CStr ''2016_0'')],
        [Some (CInt 2), Some (CInt 2016), Some (CStr ''2016_0'')],
        [Some (CInt 3), Some (CInt 2016), Some (CStr ''2016_1'')]]),
      Inr ([''id'', ''issue_d'', ''target_default'', ''ano''],
       [[Some (CInt 2), Some (CInt 2016), None],
        [Some (CInt 3), Some (CInt 2016), None]]))"
  by code_simp



lemma observed_ok: "observe_run cs run = (a, Inr b) \<Longrightarrow> \<not> isl (snd run)"
  by (cases run; cases "snd run") (auto simp: observe_run_def)

lemma create_Inr:
  assumes "create_stratified_sample str perm df t seed = (df', Inr sample)"
  shows "\<exists>df1. add_ano df = Inr df1 \<and> add_strata str df1 = Inr df' \<and>
           stratify perm df' t seed = Inr sample"
  using assms by (auto simp: create_stratified_sample_def split: sum.splits)






text \<open>
  C5. The outcome of \<^verbatim>\<open>create_stratified_sample\<close> depends on the random generator only
  through the shuffles of the given seed: two generators that agree on that seed give the
  same caller's table and the same sample (or the same exception), whatever they do on
  other seeds. A second call on the same table, which the first call has extended by
  \<^verbatim>\<open>ano\<close> and \<^verbatim>\<open>strata\<close>, gives the same outcome again.
\<close>

theorem same_seed_same_sample:
  assumes "\<forall>n. perm1 random_state n = perm2 random_state n"
    and "create_stratified_sample str perm1 df target_sz random_state = (df', res)"
  shows "create_stratified_sample str perm2 df target_sz random_state = (df', res) \<and>
         create_stratified_sample str perm2 df' target_sz random_state = (df', res)"
proof -
  have cong: "create_stratified_sample str perm2 d target_sz random_state =
      create_stratified_sample str perm1 d target_sz random_state" for d
    using stratify_cong [of perm1 random_state perm2, OF assms(1)]
    by (simp add: create_stratified_sample_def cong: sum.case_cong)
  have "create_stratified_sample str perm1 df' target_sz random_state = (df', res)"
  proof (cases "add_ano df")
    case (Inl e)
    with assms(2) have "df' = df" "res = Inl e"
      by (simp_all add: create_stratified_sample_def)
    with Inl show ?thesis by (simp add: create_stratified_sample_def)
  next
    case ano: (Inr df1)
    show ?thesis
    proof (cases "add_strata str df1")
      case (Inl e)
      with ano assms(2) have "df' = df1" "res = Inl e"
        by (auto simp: create_stratified_sample_def)
      with add_ano_again [OF ano] Inl show ?thesis
        by (simp add: create_stratified_sample_def)
    next
      case (Inr df2)
      with ano assms(2) have "df' = df2" "res = stratify perm1 df2 target_sz random_state"
        by (auto simp: create_stratified_sample_def)
      with add_ano_strata_again [OF ano Inr] show ?thesis
        by (simp add: create_stratified_sample_def)
    qed
  qed
  with assms(2) show ?thesis by (simp add: cong)
qed

theorem same_seed_same_sample_witness:
  "create_stratified_sample example_astype_str
      (\<lambda>seed n. if seed = 42 then example_permutation 42 n else [])
      example_3 2 42 = example_3_run \<and>
   create_stratified_sample example_astype_str
      (\<lambda>seed n. if seed = 42 then example_permutation 42 n else [])
      (fst example_3_run) 2 42 = example_3_run"
  using same_seed_same_sample [of example_permutation 42
      "\<lambda>seed n. if seed = 42 then example_permutation 42 n else []"
      example_astype_str example_3 2 "fst example_3_run" "snd example_3_run"]
  by (simp add: example_3_run_def)

text \<open>
  C10. A call of \<^verbatim>\<open>create_stratified_sample\<close> that returns leaves the columns
  \<^verbatim>\<open>ano\<close> (the years of \<^verbatim>\<open>issue_d\<close>) and \<^verbatim>\<open>strata\<close> on the caller's table; the
  sample has the caller's columns without \<^verbatim>\<open>strata\<close>, so it has \<^verbatim>\<open>ano\<close>. When the
  input has neither column, both are appended to it, and the sample has the input's
  columns and \<^verbatim>\<open>ano\<close>.
\<close>

theorem sample_adds_ano_and_strata:
  assumes "create_stratified_sample str perm df target_sz random_state = (df', Inr sample)"
  shows "''ano'' \<in> set (columns df') \<and> ''strata'' \<in> set (columns df') \<and>
         ''ano'' \<in> set (columns sample) \<and> ''strata'' \<notin> set (columns sample) \<and>
         columns sample = filter (\<lambda>c. c \<noteq> ''strata'') (columns df') \<and>
         (\<exists>col. getitem df ''issue_d'' = Inr col \<and> dt_year col = getitem df' ''ano'') \<and>
         (''ano'' \<notin> set (columns df) \<and> ''strata'' \<notin> set (columns df) \<longrightarrow>
            columns df' = columns df @ [''ano'', ''strata''] \<and>
            columns sample = columns df @ [''ano''])"
proof -
  from create_Inr [OF assms] obtain df1 where
    a: "add_ano df = Inr df1" and s: "add_strata str df1 = Inr df'" and
    st: "stratify perm df' target_sz random_state = Inr sample"
    by blast
  note S = add_strata_Inr [OF s]
  from add_ano_Inr [OF a] obtain years where
    i: "''issue_d'' \<in> set (columns df)" and
    c: "columns df1 = (if ''ano'' \<in> set (columns df) then columns df else columns df @ [''ano''])" and
    y: "dt_year (map (\<lambda>r. cell_at r ''issue_d'') (rows df)) = Inr years" and
    l: "length years = length (rows df)" and
    r: "rows df1 = map (\<lambda>(r, v). r(''ano'' \<mapsto> v)) (zip (rows df) years)"
    by blast
  have cols: "columns sample = filter (\<lambda>c. c \<noteq> ''strata'') (columns df')"
    by (rule stratify_columns [OF st])
  have "map (\<lambda>r. cell_at r ''ano'') (rows df') = map (\<lambda>r. cell_at r ''ano'') (rows df1)"
    by (simp add: S(4) comp_def cell_at_def)
  also have "\<dots> = years" unfolding r by (rule zip_update_same [OF l])
  finally have "getitem df' ''ano'' = Inr years"
    using S(1,3) by (simp add: getitem_def)
  with y i have "\<exists>col. getitem df ''issue_d'' = Inr col \<and> dt_year col = getitem df' ''ano''"
    by (simp add: getitem_def)
  moreover have "''ano'' \<in> set (columns df')" "''strata'' \<in> set (columns df')"
    using S(1,3) by auto
  moreover have "''ano'' \<notin> set (columns df) \<and> ''strata'' \<notin> set (columns df) \<longrightarrow>
            columns df' = columns df @ [''ano'', ''strata''] \<and>
            columns sample = columns df @ [''ano'']"
    using c S(3) by (auto simp: cols filter_id_conv)
  ultimately show ?thesis using cols by auto
qed

theorem sample_adds_ano_and_strata_witness:
  "columns example_3 = [''id'', ''issue_d'', ''target_default''] \<and>
   columns (fst example_3_run) = [''id'', ''issue_d'', ''target_default'', ''ano'', ''strata''] \<and>
   columns (projr (snd example_3_run)) = [''id'', ''issue_d'', ''target_default'', ''ano'']"
proof -
  have run: "create_stratified_sample example_astype_str example_permutation example_3 2 42 =
      (fst example_3_run, Inr (projr (snd example_3_run)))"
    using run_result [OF observed_ok [OF example_3_run_eval]] by (simp add: example_3_run_def)
  have "columns example_3 = [''id'', ''issue_d'', ''target_default'']"
    by (simp add: example_3_def)
  with sample_adds_ano_and_strata [OF run] show ?thesis by simp
qed

section \<open>Properties of the temporal distribution analysis\<close>

lemma sum_list_insort_key:
  "sum_list (map g (insort_key f x xs)) = g x + sum_list (map (g :: 'a \<Rightarrow> nat) xs)"
  by (induction xs) auto

lemma sum_list_sort_key: "sum_list (map g (sort_key f xs)) = sum_list (map (g :: 'a \<Rightarrow> nat) xs)"
  by (induction xs) (auto simp: sum_list_insort_key)

lemma count_total: "sum_list (map (count_list xs) (unique xs)) = length xs"
proof -
  have "sum_list (map (count_list xs) (unique xs)) = sum (count_list xs) (set (unique xs))"
    by (rule sum_list_distinct_conv_sum_set) simp
  also have "\<dots> = length xs" by (simp add: sum_count_set)
  finally show ?thesis .
qed

lemma value_counts_total:
  "sum_list (map snd (value_counts col)) = length (filter (\<lambda>v. \<not> is_missing v) col)"
  by (simp add: value_counts_def Let_def sum_list_sort_key comp_def count_total)

lemma map_of_normalized:
  "map_of (value_counts_normalized col) k =
     (if k \<in> set col \<and> \<not> is_missing k
      then Some (count_over_len (count_list (filter (\<lambda>v. \<not> is_missing v) col) k)
                   (length (filter (\<lambda>v. \<not> is_missing v) col)))
      else None)"
proof -
  let ?p = "filter (\<lambda>v. \<not> is_missing v) col"
  have m: "map_of (value_counts col) k =
      (if k \<in> set col \<and> \<not> is_missing k then Some (count_list ?p k) else None)"
  proof (cases "k \<in> set col \<and> \<not> is_missing k")
    case True
    then have "(k, count_list ?p k) \<in> set (value_counts col)"
      by (auto simp: value_counts_set)
    with value_counts_distinct show ?thesis using True by simp
  next
    case False
    then have "k \<notin> fst ` set (value_counts col)"
      by (auto simp: value_counts_set)
    then have "map_of (value_counts col) k = None" by (simp add: map_of_eq_None_iff)
    with False show ?thesis by auto
  qed
  have "map_of (map (\<lambda>(k, c). (k, g c)) xs) k = map_option g (map_of xs k)" for g :: "nat \<Rightarrow> double" and xs
    by (induction xs) auto
  then show ?thesis
    by (simp add: value_counts_normalized_def Let_def div_series_map m value_counts_total)
qed

lemma year_cell_missing [simp]: "is_missing (year_cell flt y) \<longleftrightarrow> y = None"
  by (cases y) (auto simp: year_cell_def is_missing_def)

lemma year_cell_number [simp]: "year_number (year_cell flt (Some n)) = n"
  by (simp add: year_cell_def year_number_def)

lemma year_cell_inj [simp]: "year_cell flt a = year_cell flt b \<longleftrightarrow> a = b"
  by (cases a; cases b) (auto simp: year_cell_def)

lemma issue_year_upd [simp]: "c \<noteq> ''issue_d'' \<Longrightarrow> issue_year (r(c \<mapsto> v)) = issue_year r"
  by (simp add: issue_year_def cell_at_def)

lemma add_ano_invariant:
  assumes "add_ano df = Inr df1"
  shows "ano_of_issue_d df1"
    and "map issue_year (rows df1) = map issue_year (rows df)"
proof -
  let ?col = "map (\<lambda>r. cell_at r ''issue_d'') (rows df)"
  let ?flt = "CNaT \<in> set ?col"
  from assms have i: "''issue_d'' \<in> set (columns df)"
    by (auto simp: add_ano_def getitem_def split: if_splits)
  from assms i have dt: "list_all is_datetime_cell ?col"
    by (auto simp: add_ano_def getitem_def dt_year_def split: if_splits)
  have years: "dt_year ?col = Inr (map (\<lambda>r. year_cell ?flt (issue_year r)) (rows df))"
  proof -
    have "(case cell_at r ''issue_d'' of CTime t \<Rightarrow> CFloat (of_int (ts_year t)) | _ \<Rightarrow> CNaN)
        = year_cell True (issue_year r)" for r
      by (simp add: year_cell_def issue_year_def split: cell.splits)
    moreover have "(case cell_at r ''issue_d'' of CTime t \<Rightarrow> CInt (ts_year t) | _ \<Rightarrow> CNaN)
        = year_cell False (issue_year r)" for r
      by (simp add: year_cell_def issue_year_def split: cell.splits)
    ultimately show ?thesis using dt by (simp add: dt_year_def comp_def)
  qed
  from assms i have set: "setitem df ''ano'' (map (\<lambda>r. year_cell ?flt (issue_year r)) (rows df)) = Inr df1"
    by (simp add: add_ano_def getitem_def years)
  then have rws: "rows df1 = map (\<lambda>r. r(''ano'' \<mapsto> year_cell ?flt (issue_year r))) (rows df)"
    and cols: "''ano'' \<in> set (columns df1)"
    by (auto simp: setitem_def update_by_map)
  show "map issue_year (rows df1) = map issue_year (rows df)"
    by (simp add: rws comp_def)
  have "\<forall>r \<in> set (rows df1). cell_at r ''ano'' = year_cell ?flt (issue_year r)"
    by (auto simp: rws cell_at_def)
  with cols show "ano_of_issue_d df1" unfolding ano_of_issue_d_def by blast
qed

lemma year_share_cong:
  assumes "map issue_year (rows df1) = map issue_year (rows df)"
  shows "year_share df1 = year_share df"
proof -
  have "length (filter P (map issue_year (rows df1))) = length (filter P (map issue_year (rows df)))" for P
    using assms by simp
  then have len: "length (filter (\<lambda>r. P (issue_year r)) (rows df1)) =
      length (filter (\<lambda>r. P (issue_year r)) (rows df))" for P
    by (simp add: filter_map comp_def)
  have a: "length (year_rows df1 y) = length (year_rows df y)" for y
    unfolding year_rows_def by (rule len [of "\<lambda>v. v = Some y"])
  have b: "length (dated_rows df1) = length (dated_rows df)"
    unfolding dated_rows_def by (rule len [of "\<lambda>v. v \<noteq> None"])
  have "year_share df1 y = year_share df y" for y
    using a [of y] b unfolding year_share_def by (metis length_0_conv)
  then show ?thesis by blast
qed

lemma count_list_filter: "count_list xs k = length (filter (\<lambda>x. x = k) xs)"
  by (induction xs) auto

lemma year_dist_lookup:
  assumes "ano_of_issue_d df"
  shows "\<exists>yd. year_dist df = Inr yd \<and> sorted (map fst yd) \<and> distinct (map fst yd) \<and>
           (\<forall>y. map_of yd y = year_share df y)"
proof -
  from assms obtain flt where col: "''ano'' \<in> set (columns df)"
    and inv: "\<forall>r \<in> set (rows df). cell_at r ''ano'' = year_cell flt (issue_year r)"
    unfolding ano_of_issue_d_def by blast
  let ?col = "map (\<lambda>r. cell_at r ''ano'') (rows df)"
  have col_eq: "?col = map (\<lambda>r. year_cell flt (issue_year r)) (rows df)"
    using inv by simp
  let ?vcn = "value_counts_normalized ?col"
  let ?yd = "sort_key fst (map (\<lambda>(k, p). (year_number k, p)) ?vcn)"
  have yd: "year_dist df = Inr ?yd"
    using col by (simp add: year_dist_def getitem_def)
  have present: "filter (\<lambda>v. \<not> is_missing v) ?col =
      map (\<lambda>r. year_cell flt (issue_year r)) (dated_rows df)"
    unfolding col_eq by (simp add: filter_map comp_def dated_rows_def)
  have total: "length (filter (\<lambda>v. \<not> is_missing v) ?col) = length (dated_rows df)"
    unfolding present by simp
  have cnt: "count_list (filter (\<lambda>v. \<not> is_missing v) ?col) (year_cell flt (Some y)) =
      length (year_rows df y)" for y
    unfolding present count_list_filter
    by (simp add: filter_map comp_def dated_rows_def year_rows_def)
       (rule arg_cong [where f = length], rule filter_cong, auto)
  have look: "map_of ?vcn k =
      (if \<exists>y. k = year_cell flt (Some y) \<and> year_rows df y \<noteq> []
       then Some (count_over_len (length (year_rows df (year_number k))) (length (dated_rows df)))
       else None)" for k
  proof (cases "\<exists>y. k = year_cell flt (Some y) \<and> year_rows df y \<noteq> []")
    case True
    then obtain y where k: "k = year_cell flt (Some y)" and ne: "year_rows df y \<noteq> []" by blast
    from ne obtain r where "r \<in> set (rows df)" "issue_year r = Some y"
      by (auto simp: year_rows_def filter_empty_conv)
    then have "k \<in> set ?col" unfolding col_eq k by force
    then show ?thesis using True
      by (simp only: map_of_normalized total) (auto simp: cnt k)
  next
    case False
    have "\<not> (k \<in> set ?col \<and> \<not> is_missing k)"
    proof
      assume a: "k \<in> set ?col \<and> \<not> is_missing k"
      then obtain r where r: "r \<in> set (rows df)" "k = year_cell flt (issue_year r)"
        unfolding col_eq by auto
      with a obtain y where y: "issue_year r = Some y" by auto
      with r have "year_rows df y \<noteq> []" by (auto simp: year_rows_def filter_empty_conv)
      with False r y show False by auto
    qed
    with False show ?thesis by (simp only: map_of_normalized) auto
  qed
  have keys: "fst ` set ?vcn = {k. \<exists>y. k = year_cell flt (Some y) \<and> year_rows df y \<noteq> []}"
  proof -
    have "k \<in> fst ` set ?vcn \<longleftrightarrow> (\<exists>y. k = year_cell flt (Some y) \<and> year_rows df y \<noteq> [])" for k
      using map_of_eq_None_iff [of ?vcn k] look [of k] by (metis option.distinct(1))
    then show ?thesis by blast
  qed
  have dist_vcn: "distinct (map fst ?vcn)"
    by (simp add: value_counts_normalized_def Let_def div_series_map comp_def case_prod_unfold
        value_counts_distinct [unfolded comp_def])
  have inj: "inj_on year_number (fst ` set ?vcn)"
    unfolding keys by (auto simp: inj_on_def)
  have e: "map fst (map (\<lambda>(k, p). (year_number k, p)) ?vcn) = map year_number (map fst ?vcn)"
    by (simp add: comp_def case_prod_unfold)
  have "distinct (map year_number (map fst ?vcn))"
  proof (rule iffD2 [OF distinct_map], rule conjI)
    show "distinct (map fst ?vcn)" by (rule dist_vcn)
    show "inj_on year_number (set (map fst ?vcn))" using inj by (simp only: set_map)
  qed
  then have dist_pre: "distinct (map fst (map (\<lambda>(k, p). (year_number k, p)) ?vcn))"
    by (simp only: e)
  then have dist: "distinct (map fst ?yd)" by (simp add: distinct_map_sort_key)
  have srt: "sorted (map fst ?yd)" by (rule sorted_sort_key)
  have "map_of ?yd y = year_share df y" for y
  proof (cases "year_rows df y = []")
    case True
    have "y \<notin> fst ` set ?yd"
    proof
      assume "y \<in> fst ` set ?yd"
      then obtain k where "k \<in> fst ` set ?vcn" "year_number k = y" by force
      with True show False unfolding keys by auto
    qed
    then show ?thesis using True by (simp add: map_of_eq_None_iff year_share_def)
  next
    case False
    let ?k = "year_cell flt (Some y)"
    let ?p = "count_over_len (length (year_rows df y)) (length (dated_rows df))"
    from False have "map_of ?vcn ?k = Some ?p" by (auto simp: look)
    then have "(?k, ?p) \<in> set ?vcn" by (rule map_of_SomeD)
    then have "(y, ?p) \<in> set ?yd" by force
    with dist have "map_of ?yd y = Some ?p" by simp
    with False show ?thesis by (simp add: year_share_def)
  qed
  with yd srt dist show ?thesis by blast
qed

lemma map_of_times:
  "map_of (times_100_round1 s) y = map_option (\<lambda>p. np_round1 (fmul p 100)) (map_of s y)"
  by (induction s rule: times_100_round1.induct) auto

lemma fst_times: "map fst (times_100_round1 s) = map fst s"
  by (induction s rule: times_100_round1.induct) auto

lemma union_index_props:
  "sorted (union_index a b)" "distinct (union_index a b)" "set (union_index a b) = set a \<union> set b"
  by (simp_all add: union_index_def)

lemma union_index_idem: "union_index (union_index a b) (union_index a b) = union_index a b"
  by (rule sorted_distinct_set_unique) (auto simp: union_index_props)

lemma map_of_tabulate: "y \<in> set ys \<Longrightarrow> map_of (map (\<lambda>y. (y, h y)) ys) y = Some (h y)"
  by (induction ys) auto

lemma keys_of_lookup: "set (map fst yd) = {y. map_of yd y \<noteq> None}"
  by (auto simp: map_of_eq_None_iff image_iff)

lemma compare_dists_Inr:
  assumes "ano_of_issue_d o1" and "ano_of_issue_d s1"
  shows "\<exists>ys. compare_dists o1 s1 = Inr (map (report_row o1 s1) ys) \<and> sorted ys \<and> distinct ys \<and>
           set ys = {y. year_share o1 y \<noteq> None \<or> year_share s1 y \<noteq> None}"
proof -
  from year_dist_lookup [OF assms(1)] obtain od where
    od: "year_dist o1 = Inr od" "\<forall>y. map_of od y = year_share o1 y" by blast
  from year_dist_lookup [OF assms(2)] obtain sd where
    sd: "year_dist s1 = Inr sd" "\<forall>y. map_of sd y = year_share s1 y" by blast
  let ?ys = "union_index (map fst od) (map fst sd)"
  have idx: "union_index (union_index (map fst (times_100_round1 od)) (map fst (times_100_round1 sd)))
      (map fst (abs_diff_pp od sd)) = ?ys"
    by (simp add: fst_times abs_diff_pp_def comp_def union_index_idem)
  have "comparison_frame (times_100_round1 od) (times_100_round1 sd) (abs_diff_pp od sd) =
      map (report_row o1 s1) ?ys"
    unfolding comparison_frame_def idx
    by (rule map_cong)
       (simp_all add: report_row_def map_of_times od(2) sd(2) abs_diff_pp_def map_of_tabulate)
  then have "compare_dists o1 s1 = Inr (map (report_row o1 s1) ?ys)"
    by (simp add: compare_dists_def od(1) sd(1))
  moreover have "set (map fst od) = {y. year_share o1 y \<noteq> None}"
    "set (map fst sd) = {y. year_share s1 y \<noteq> None}"
    unfolding keys_of_lookup using od(2) sd(2) by simp_all
  then have "set ?ys = {y. year_share o1 y \<noteq> None \<or> year_share s1 y \<noteq> None}"
    unfolding union_index_props(3) by blast
  ultimately show ?thesis using union_index_props(1,2) by blast
qed

text \<open>
  C7, as amended. The report has one row for each year that some record of the source or
  of the sample table has, in ascending order of year. A row holds the source share and
  the sample share of its year, each as a percentage rounded to one decimal, and, when the
  year occurs in both tables, the absolute difference of the two shares in percentage
  points rounded to one decimal. For a year that occurs in one table only, the share of
  the other table and the difference are \<^verbatim>\<open>NaN\<close>. Shares, products and differences are
  the source's double-precision ones, rounded as NumPy rounds.
\<close>

theorem temporal_comparison_report:
  assumes "analyze_temporal_distribution df_original df_sample = (dfs, Inr report)"
  shows "sorted (map ano report) \<and> distinct (map ano report) \<and>
         set (map ano report) =
           {y. year_share df_original y \<noteq> None \<or> year_share df_sample y \<noteq> None} \<and>
         (\<forall>row \<in> set report.
            original_pct row =
              map_option (\<lambda>p. np_round1 (fmul p 100)) (year_share df_original (ano row)) \<and>
            amostra_pct row =
              map_option (\<lambda>p. np_round1 (fmul p 100)) (year_share df_sample (ano row)) \<and>
            diferenca_pp row =
              (case (year_share df_original (ano row), year_share df_sample (ano row)) of
                 (Some p, Some q) \<Rightarrow> Some (np_round1 \<bar>fmul (fsub p q) 100\<bar>)
               | _ \<Rightarrow> None))"
proof -
  from assms obtain o1 s1 where
    o1: "add_ano df_original = Inr o1" and s1: "add_ano df_sample = Inr s1" and
    cmp: "compare_dists o1 s1 = Inr report"
    by (auto simp: analyze_temporal_distribution_def split: sum.splits)
  note O = add_ano_invariant [OF o1] and S = add_ano_invariant [OF s1]
  have so: "year_share o1 = year_share df_original" by (rule year_share_cong [OF O(2)])
  have ss: "year_share s1 = year_share df_sample" by (rule year_share_cong [OF S(2)])
  from compare_dists_Inr [OF O(1) S(1)] cmp obtain ys where
    rep: "report = map (report_row o1 s1) ys" and ys: "sorted ys" "distinct ys"
      "set ys = {y. year_share o1 y \<noteq> None \<or> year_share s1 y \<noteq> None}"
    by auto
  have anos: "map ano report = ys"
    by (simp add: rep comp_def report_row_def)
  have diff: "nan_abs_diff_pp a b =
      (case (a, b) of (Some p, Some q) \<Rightarrow> Some (np_round1 \<bar>fmul (fsub p q) 100\<bar>) | _ \<Rightarrow> None)" for a b
    by (cases a; cases b) simp_all
  have "\<forall>row \<in> set report.
            original_pct row =
              map_option (\<lambda>p. np_round1 (fmul p 100)) (year_share df_original (ano row)) \<and>
            amostra_pct row =
              map_option (\<lambda>p. np_round1 (fmul p 100)) (year_share df_sample (ano row)) \<and>
            diferenca_pp row =
              (case (year_share df_original (ano row), year_share df_sample (ano row)) of
                 (Some p, Some q) \<Rightarrow> Some (np_round1 \<bar>fmul (fsub p q) 100\<bar>)
               | _ \<Rightarrow> None)"
    unfolding rep by (auto simp: report_row_def so ss diff split: option.splits)
  with ys show ?thesis unfolding anos so ss by blast
qed

lemma example_analysis_eval:
  "snd example_analysis =
     Inr [\<lparr>ano = 2015, original_pct = Some (fl (333 / 10)), amostra_pct = None, diferenca_pp = None\<rparr>,
          \<lparr>ano = 2016, original_pct = Some (fl (667 / 10)), amostra_pct = Some 100,
            diferenca_pp = Some (fl (333 / 10))\<rparr>]"
  by code_simp

text \<open>
  C7 as stated fails for a year of one table only: 2015 is the year of one of three source
  records and of no sample record, and its row holds \<^verbatim>\<open>NaN\<close> as sample share and as
  difference, not 0.0 and 33.3.
\<close>

theorem absent_year_counterexample:
  "length (year_rows example_source 2015) = 1 \<and> length (year_rows example_sample 2015) = 0 \<and>
   snd (analyze_temporal_distribution example_source example_sample) =
     Inr [\<lparr>ano = 2015, original_pct = Some (fl (333 / 10)), amostra_pct = None, diferenca_pp = None\<rparr>,
          \<lparr>ano = 2016, original_pct = Some (fl (667 / 10)), amostra_pct = Some 100,
            diferenca_pp = Some (fl (333 / 10))\<rparr>]"
proof -
  have "length (year_rows example_source 2015) = 1" by code_simp
  moreover have "length (year_rows example_sample 2015) = 0" by code_simp
  ultimately show ?thesis using example_analysis_eval by (simp add: example_analysis_def)
qed

theorem temporal_comparison_report_witness:
  "map ano (projr (snd example_analysis)) = [2015, 2016] \<and>
   sorted (map ano (projr (snd example_analysis))) \<and>
   distinct (map ano (projr (snd example_analysis))) \<and>
   list_all (\<lambda>row.
       original_pct row =
         map_option (\<lambda>p. np_round1 (fmul p 100)) (year_share example_source (ano row)) \<and>
       amostra_pct row =
         map_option (\<lambda>p. np_round1 (fmul p 100)) (year_share example_sample (ano row)) \<and>
       diferenca_pp row =
         (case (year_share example_source (ano row), year_share example_sample (ano row)) of
            (Some p, Some q) \<Rightarrow> Some (np_round1 \<bar>fmul (fsub p q) 100\<bar>)
          | _ \<Rightarrow> None))
     (projr (snd example_analysis))"
proof -
  have run: "analyze_temporal_distribution example_source example_sample =
      (fst example_analysis, Inr (projr (snd example_analysis)))"
    using example_analysis_eval by (cases example_analysis) (auto simp: example_analysis_def)
  have "map ano (projr (snd example_analysis)) = [2015, 2016]"
    by (simp add: example_analysis_eval)
  with temporal_comparison_report [OF run] show ?thesis
    unfolding list_all_iff by blast
qed

end
